theory Spec2Isabelle
  imports Complex_Main
begin

section \<open>Jogo das Cores: the grid game of DesafioModulo3.cpp\<close>

text \<open>
  The game keeps a fixed matrix of coloured quads, a pending selection set by the mouse
  callback, and the counters \<open>attempts\<close> and \<open>score\<close>. The main loop resolves a pending
  selection once per iteration with \<open>eliminarSimilares\<close>.

  Conventions of the embedding:
  \<^item> A \<open>float\<close> variable is modelled by a real number, and the value the program holds in
    it is the binary32 number nearest to that real (\<open>float32\<close>): \<open>resetGame\<close> stores
    \<open>k / 255\<close> for the value of \<open>float(k) / 255.0f\<close>. The colour distance of
    \<open>eliminarSimilares\<close> is computed in binary32 arithmetic, every operation rounded to
    nearest, ties to even. The positions of the quads and the \<open>double\<close> cursor
    coordinates are real numbers with exact arithmetic.
  \<^item> The constants \<open>ROWS\<close>, \<open>COLS\<close>, \<open>QUAD_W\<close>, \<open>QUAD_H\<close> and \<open>COLOR_TOLERANCE\<close> are
    the fields of a record \<open>config\<close>; \<open>source_config\<close> holds the values of the source.
  \<^item> \<open>int\<close> variables are unbounded integers; \<open>reachable_bounds\<close> shows that in every
    state the program reaches they stay between \<open>-1\<close> and \<open>ROWS * COLS\<close>.
  \<^item> An operation returns \<open>None\<close> where the C++ program has undefined behaviour: an
    index outside the matrix, a division by zero, a conversion to \<open>int\<close> of a value that
    \<open>int\<close> cannot hold.
\<close>

subsection \<open>Data\<close>

text \<open>\<open>glm::vec3\<close>: three floats, read as \<open>x, y, z\<close> or as \<open>r, g, b\<close>.\<close>

datatype vec3 = Vec3 (vec_r: real) (vec_g: real) (vec_b: real)

record Quad =
  position :: vec3
  dimensions :: vec3
  color :: vec3
  eliminated :: bool

record config =
  ROWS :: nat
  COLS :: nat
  QUAD_W :: nat
  QUAD_H :: nat
  COLOR_TOLERANCE :: real

definition source_config :: config where
  "source_config = \<lparr>ROWS = 6, COLS = 8, QUAD_W = 100, QUAD_H = 100, COLOR_TOLERANCE = 0.2\<rparr>"

subsection \<open>binary32 arithmetic\<close>

text \<open>The integer nearest to a real, the even one of the two at a tie.\<close>

definition round_even :: "real \<Rightarrow> int" where
  "round_even y =
     (let f = \<lfloor>y\<rfloor>; d = y - of_int f
      in if d < 1 / 2 then f else if 1 / 2 < d then f + 1 else if even f then f else f + 1)"

text \<open>
  The binary32 number nearest to a real: a significand of 24 bits at the exponent \<open>e\<close> of
  the real, which is at least \<open>-126\<close> (below, the spacing is that of the subnormal numbers).
  Overflow to infinity is left out: the colours and distances of the game stay below 2.
\<close>

definition float32 :: "real \<Rightarrow> real" where
  "float32 x =
     (if x = 0 then 0
      else let e = max \<lfloor>log 2 \<bar>x\<bar>\<rfloor> (- 126);
               q = 2 powr (of_int e - 23)
           in of_int (round_even (x / q)) * q)"

text \<open>The operations on \<open>float\<close>: the exact result, rounded.\<close>

definition f32_add :: "real \<Rightarrow> real \<Rightarrow> real" where
  "f32_add a b = float32 (a + b)"

definition f32_sub :: "real \<Rightarrow> real \<Rightarrow> real" where
  "f32_sub a b = float32 (a - b)"

definition f32_mul :: "real \<Rightarrow> real \<Rightarrow> real" where
  "f32_mul a b = float32 (a * b)"

definition f32_div :: "real \<Rightarrow> real \<Rightarrow> real" where
  "f32_div a b = float32 (a / b)"

definition sqrtf :: "real \<Rightarrow> real" where
  "sqrtf a = float32 (sqrt a)"

text \<open>\<open>const float dMax = sqrt(3.0f)\<close>.\<close>

definition dMax :: real where
  "dMax = sqrtf (float32 3)"

text \<open>The global variables of the program. \<open>grid\<close> is the matrix \<open>grid[ROWS][COLS]\<close>, a list of rows.\<close>

record game =
  grid :: "Quad list list"
  attempts :: int
  score :: int
  gameOver :: bool
  iSelected :: int

text \<open>The matrix has its declared shape: \<open>ROWS\<close> rows of \<open>COLS\<close> quads.\<close>

definition wf_grid :: "config \<Rightarrow> Quad list list \<Rightarrow> bool" where
  "wf_grid cfg gr = (length gr = ROWS cfg \<and> list_all (\<lambda>row. length row = COLS cfg) gr)"

text \<open>The statics before \<open>main\<close> runs: zero-initialised matrix, initialised counters.\<close>

definition zero_quad :: Quad where
  "zero_quad = \<lparr>position = Vec3 0 0 0, dimensions = Vec3 0 0 0, color = Vec3 0 0 0, eliminated = False\<rparr>"

definition init_game :: "config \<Rightarrow> game" where
  "init_game cfg =
     \<lparr>grid = replicate (ROWS cfg) (replicate (COLS cfg) zero_quad),
      attempts = 0, score = 0, gameOver = False, iSelected = - 1\<rparr>"

subsection \<open>Loops\<close>

text \<open>\<open>for (int i = lo; i < hi; i++) body(i)\<close> over a state.\<close>

function for_loop :: "nat \<Rightarrow> nat \<Rightarrow> (nat \<Rightarrow> 'a \<Rightarrow> 'a) \<Rightarrow> 'a \<Rightarrow> 'a" where
  "for_loop lo hi body s = (if lo < hi then for_loop (Suc lo) hi body (body lo s) else s)"
  by pat_completeness auto
termination
  by (relation "measure (\<lambda>(lo, hi, body, s). hi - lo)") auto

declare for_loop.simps [simp del]

subsection \<open>eliminarSimilares\<close>

text \<open>
  The body of the inner loop at cell \<open>(i, j)\<close>; the loop state is the matrix and
  \<open>removedCount\<close>. The colours read and the tolerance are the binary32 values held, and
  \<open>dist\<close> and \<open>normalizedDist\<close> are computed in binary32, operation by operation.
\<close>

definition elim_cell :: "vec3 \<Rightarrow> real \<Rightarrow> nat \<Rightarrow> nat \<Rightarrow> Quad list list \<times> int \<Rightarrow> Quad list list \<times> int" where
  "elim_cell target toleranciaNormalized i j = (\<lambda>(gr, removedCount).
     if \<not> eliminated (gr ! i ! j) then
       (let c = color (gr ! i ! j);
            dist = sqrtf (f32_add (f32_add
                     (f32_mul (f32_sub (float32 (vec_r c)) (float32 (vec_r target)))
                              (f32_sub (float32 (vec_r c)) (float32 (vec_r target))))
                     (f32_mul (f32_sub (float32 (vec_g c)) (float32 (vec_g target)))
                              (f32_sub (float32 (vec_g c)) (float32 (vec_g target)))))
                     (f32_mul (f32_sub (float32 (vec_b c)) (float32 (vec_b target)))
                              (f32_sub (float32 (vec_b c)) (float32 (vec_b target)))));
            normalizedDist = f32_div dist dMax
        in if normalizedDist \<le> float32 toleranciaNormalized
           then (gr[i := (gr ! i)[j := (gr ! i ! j)\<lparr>eliminated := True\<rparr>]], removedCount + 1)
           else (gr, removedCount))
     else (gr, removedCount))"

definition eliminarSimilares :: "config \<Rightarrow> real \<Rightarrow> game \<Rightarrow> (game \<times> int) option" where
  "eliminarSimilares cfg toleranciaNormalized s =
     (if iSelected s < 0 then Some (s, 0)
      else if COLS cfg = 0 then None
      else
        let row = nat (iSelected s) div COLS cfg;
            col = nat (iSelected s) mod COLS cfg
        in if \<not> row < ROWS cfg then None
           else
             let g1 = (grid s)[row := (grid s ! row)[col := (grid s ! row ! col)\<lparr>eliminated := True\<rparr>]];
                 target = color (g1 ! row ! col);
                 (g2, removedCount) =
                    for_loop 0 (ROWS cfg) (\<lambda>i. for_loop 0 (COLS cfg) (\<lambda>j. elim_cell target toleranciaNormalized i j))
                      (g1, 1)
             in Some (s\<lparr>grid := g2, iSelected := - 1\<rparr>, removedCount))"

subsection \<open>anyActiveCell\<close>

text \<open>The two loops return \<open>true\<close> at the first quad that is not eliminated.\<close>

function anyActive_cols :: "config \<Rightarrow> Quad list list \<Rightarrow> nat \<Rightarrow> nat \<Rightarrow> bool" where
  "anyActive_cols cfg gr i j =
     (if j < COLS cfg then (if \<not> eliminated (gr ! i ! j) then True else anyActive_cols cfg gr i (Suc j))
      else False)"
  by pat_completeness auto
termination
  by (relation "measure (\<lambda>(cfg, gr, i, j). COLS cfg - j)") auto

declare anyActive_cols.simps [simp del]

function anyActive_rows :: "config \<Rightarrow> Quad list list \<Rightarrow> nat \<Rightarrow> bool" where
  "anyActive_rows cfg gr i =
     (if i < ROWS cfg then (if anyActive_cols cfg gr i 0 then True else anyActive_rows cfg gr (Suc i))
      else False)"
  by pat_completeness auto
termination
  by (relation "measure (\<lambda>(cfg, gr, i). ROWS cfg - i)") auto

declare anyActive_rows.simps [simp del]

definition anyActiveCell :: "config \<Rightarrow> Quad list list \<Rightarrow> bool" where
  "anyActiveCell cfg gr = anyActive_rows cfg gr 0"

subsection \<open>resetGame\<close>

text \<open>
  \<open>rnd k\<close> is the value of the \<open>k\<close>-th call of \<open>rand()\<close> made by this run of \<open>resetGame\<close>
  (\<open>rand\<close> returns a value between 0 and \<open>RAND_MAX\<close>, hence a natural number). The loop state is
  the matrix and the number of calls made so far.
\<close>

definition reset_cell :: "config \<Rightarrow> (nat \<Rightarrow> nat) \<Rightarrow> nat \<Rightarrow> nat \<Rightarrow> Quad list list \<times> nat \<Rightarrow> Quad list list \<times> nat" where
  "reset_cell cfg rnd i j = (\<lambda>(gr, k).
     let q0 = gr ! i ! j;
         q1 = q0\<lparr>position := Vec3 (real j * real (QUAD_W cfg) + real (QUAD_W cfg) / 2)
                                  (real i * real (QUAD_H cfg) + real (QUAD_H cfg) / 2)
                                  0\<rparr>;
         q2 = q1\<lparr>dimensions := Vec3 (real (QUAD_W cfg)) (real (QUAD_H cfg)) 1\<rparr>;
         r = real (rnd k mod 256) / 255;
         g = real (rnd (k + 1) mod 256) / 255;
         b = real (rnd (k + 2) mod 256) / 255;
         q3 = q2\<lparr>color := Vec3 r g b\<rparr>;
         q4 = q3\<lparr>eliminated := False\<rparr>
     in (gr[i := (gr ! i)[j := q4]], k + 3))"

definition resetGame :: "config \<Rightarrow> (nat \<Rightarrow> nat) \<Rightarrow> game \<Rightarrow> game" where
  "resetGame cfg rnd s =
     (let s1 = s\<lparr>attempts := 0, score := 0, gameOver := False, iSelected := - 1\<rparr>;
          (g, k) = for_loop 0 (ROWS cfg) (\<lambda>i. for_loop 0 (COLS cfg) (\<lambda>j. reset_cell cfg rnd i j)) (grid s1, 0)
      in s1\<lparr>grid := g\<rparr>)"

subsection \<open>Callbacks\<close>

datatype mouse_button = GLFW_MOUSE_BUTTON_LEFT | GLFW_MOUSE_BUTTON_OTHER
datatype input_action = GLFW_PRESS | GLFW_RELEASE | GLFW_REPEAT
datatype key = GLFW_KEY_ESCAPE | GLFW_KEY_R | GLFW_KEY_OTHER

text \<open>\<open>static_cast<int>\<close> of a double: truncation towards zero, undefined outside the range of \<open>int\<close>.\<close>

definition static_cast_int :: "real \<Rightarrow> int option" where
  "static_cast_int v =
     (let t = (if 0 \<le> v then \<lfloor>v\<rfloor> else \<lceil>v\<rceil>)
      in if - (2 ^ 31) \<le> t \<and> t < 2 ^ 31 then Some t else None)"

text \<open>\<open>cursor\<close> is the position that \<open>glfwGetCursorPos\<close> reports.\<close>

definition mouse_button_callback ::
  "config \<Rightarrow> mouse_button \<Rightarrow> input_action \<Rightarrow> real \<times> real \<Rightarrow> game \<Rightarrow> game option" where
  "mouse_button_callback cfg button action cursor s =
     (if button = GLFW_MOUSE_BUTTON_LEFT \<and> action = GLFW_PRESS \<and> \<not> gameOver s then
        (let (xpos, ypos) = cursor
         in if QUAD_W cfg = 0 \<or> QUAD_H cfg = 0 then None
            else
              case static_cast_int ((xpos - real (QUAD_W cfg div 2)) / real (QUAD_W cfg)) of
                None \<Rightarrow> None
              | Some col \<Rightarrow>
                 (case static_cast_int ((ypos - real (QUAD_H cfg div 2)) / real (QUAD_H cfg)) of
                    None \<Rightarrow> None
                  | Some row \<Rightarrow>
                     if col \<ge> 0 \<and> col < int (COLS cfg) \<and> row \<ge> 0 \<and> row < int (ROWS cfg) then
                       (if \<not> eliminated (grid s ! nat row ! nat col)
                        then Some (s\<lparr>iSelected := row * int (COLS cfg) + col\<rparr>)
                        else Some s)
                     else Some s))
      else Some s)"

text \<open>
  \<open>ESC\<close> only asks the window to close, which is no part of the game state; \<open>R\<close> restarts
  the game, with \<open>rnd\<close> the values \<open>rand()\<close> returns during that restart.
\<close>

definition key_callback :: "config \<Rightarrow> key \<Rightarrow> input_action \<Rightarrow> (nat \<Rightarrow> nat) \<Rightarrow> game \<Rightarrow> game" where
  "key_callback cfg k action rnd s =
     (if k = GLFW_KEY_ESCAPE \<and> action = GLFW_PRESS then s
      else if k = GLFW_KEY_R \<and> action = GLFW_PRESS then resetGame cfg rnd s
      else s)"

subsection \<open>The main loop\<close>

text \<open>The game part of one iteration of the loop of \<open>main\<close>, after \<open>glfwPollEvents\<close>.\<close>

definition main_loop_body :: "config \<Rightarrow> game \<Rightarrow> game option" where
  "main_loop_body cfg s =
     (if iSelected s \<ge> 0 \<and> \<not> gameOver s then
        (case eliminarSimilares cfg (COLOR_TOLERANCE cfg) s of
           None \<Rightarrow> None
         | Some (s1, removedCount) \<Rightarrow>
            let s2 = (if removedCount > 0 then
                        (let attempts' = attempts s1 + 1;
                             penalty = attempts';
                             score' = score s1 + (removedCount - penalty)
                         in s1\<lparr>attempts := attempts', score := (if score' < 0 then 0 else score')\<rparr>)
                      else s1);
                s3 = (if \<not> anyActiveCell cfg (grid s2) then s2\<lparr>gameOver := True\<rparr> else s2)
            in Some (s3\<lparr>iSelected := - 1\<rparr>))
      else Some s)"

text \<open>What can happen to the game: a mouse event, a key event, or the loop body.\<close>

datatype event =
    MouseButton mouse_button input_action real real
  | KeyEvent key input_action "nat \<Rightarrow> nat"
  | Frame

fun step :: "config \<Rightarrow> event \<Rightarrow> game \<Rightarrow> game option" where
  "step cfg (MouseButton button action xpos ypos) s = mouse_button_callback cfg button action (xpos, ypos) s"
| "step cfg (KeyEvent k action rnd) s = Some (key_callback cfg k action rnd s)"
| "step cfg Frame s = main_loop_body cfg s"

fun run :: "config \<Rightarrow> event list \<Rightarrow> game \<Rightarrow> game option" where
  "run cfg [] s = Some s"
| "run cfg (e # es) s = (case step cfg e s of None \<Rightarrow> None | Some s' \<Rightarrow> run cfg es s')"

text \<open>\<open>main\<close> calls \<open>resetGame\<close> before the loop; every later state comes from an event.\<close>

inductive reachable :: "config \<Rightarrow> game \<Rightarrow> bool" for cfg :: config where
  start: "reachable cfg (resetGame cfg rnd (init_game cfg))"
| next_state: "reachable cfg s \<Longrightarrow> step cfg e s = Some s' \<Longrightarrow> reachable cfg s'"

subsection \<open>Notions used to state the properties\<close>

text \<open>
  The normalised colour distance of the specification: the Euclidean distance of two
  colours, divided by \<open>sqrt 3\<close>, is at most the tolerance.
\<close>

definition within_tolerance :: "vec3 \<Rightarrow> real \<Rightarrow> vec3 \<Rightarrow> bool" where
  "within_tolerance t tol c =
     (sqrt ((vec_r c - vec_r t)\<^sup>2 + (vec_g c - vec_g t)\<^sup>2 + (vec_b c - vec_b t)\<^sup>2) / sqrt 3 \<le> tol)"

text \<open>
  The same test as the program evaluates it: on the binary32 values of the colours and of
  the tolerance, with binary32 subtraction, multiplication, addition, square root and
  division by \<open>dMax\<close>.
\<close>

definition within_tolerance32 :: "vec3 \<Rightarrow> real \<Rightarrow> vec3 \<Rightarrow> bool" where
  "within_tolerance32 t tol c =
     (f32_div (sqrtf (f32_add (f32_add
          (f32_mul (f32_sub (float32 (vec_r c)) (float32 (vec_r t)))
                   (f32_sub (float32 (vec_r c)) (float32 (vec_r t))))
          (f32_mul (f32_sub (float32 (vec_g c)) (float32 (vec_g t)))
                   (f32_sub (float32 (vec_g c)) (float32 (vec_g t)))))
          (f32_mul (f32_sub (float32 (vec_b c)) (float32 (vec_b t)))
                   (f32_sub (float32 (vec_b c)) (float32 (vec_b t)))))) dMax
      \<le> float32 tol)"

text \<open>A quad the scan removes, and what the scan makes of a quad.\<close>

definition hit :: "vec3 \<Rightarrow> real \<Rightarrow> Quad \<Rightarrow> bool" where
  "hit t tol q = (\<not> eliminated q \<and> within_tolerance32 t tol (color q))"

definition mark :: "vec3 \<Rightarrow> real \<Rightarrow> Quad \<Rightarrow> Quad" where
  "mark t tol q = (if hit t tol q then q\<lparr>eliminated := True\<rparr> else q)"

text \<open>The number of eliminated quads of a matrix.\<close>

definition count_eliminated :: "Quad list list \<Rightarrow> nat" where
  "count_eliminated gr = sum_list (map (\<lambda>row. length (filter eliminated row)) gr)"

text \<open>The quad that \<open>resetGame\<close> writes at \<open>(i, j)\<close> when \<open>k\<close> calls of \<open>rand()\<close> came before.\<close>

definition fresh_quad :: "config \<Rightarrow> (nat \<Rightarrow> nat) \<Rightarrow> nat \<Rightarrow> nat \<Rightarrow> nat \<Rightarrow> Quad" where
  "fresh_quad cfg rnd i j k =
     \<lparr>position = Vec3 (real j * real (QUAD_W cfg) + real (QUAD_W cfg) / 2)
                      (real i * real (QUAD_H cfg) + real (QUAD_H cfg) / 2) 0,
      dimensions = Vec3 (real (QUAD_W cfg)) (real (QUAD_H cfg)) 1,
      color = Vec3 (real (rnd k mod 256) / 255) (real (rnd (k + 1) mod 256) / 255)
                   (real (rnd (k + 2) mod 256) / 255),
      eliminated = False\<rparr>"

text \<open>The row and the column that \<open>eliminarSimilares\<close> computes from \<open>iSelected\<close>.\<close>

definition sel_row :: "config \<Rightarrow> game \<Rightarrow> nat" where
  "sel_row cfg s = nat (iSelected s) div COLS cfg"

definition sel_col :: "config \<Rightarrow> game \<Rightarrow> nat" where
  "sel_col cfg s = nat (iSelected s) mod COLS cfg"

text \<open>The number of quads of a matrix that a scan with target \<open>t\<close> removes.\<close>

definition count_hits :: "vec3 \<Rightarrow> real \<Rightarrow> Quad list list \<Rightarrow> nat" where
  "count_hits t tol gr = sum_list (map (\<lambda>row. length (filter (hit t tol) row)) gr)"

text \<open>
  The number of quads that are eliminated in \<open>gr'\<close> and were not in \<open>gr\<close>, for two
  matrices of the same shape.
\<close>

definition count_flipped :: "Quad list list \<Rightarrow> Quad list list \<Rightarrow> nat" where
  "count_flipped gr gr' =
     sum_list (map (\<lambda>(row, row'). length (filter (\<lambda>(q, q'). \<not> eliminated q \<and> eliminated q') (zip row row')))
                   (zip gr gr'))"

text \<open>A press of \<open>R\<close> is the event that restarts the game.\<close>

fun is_reset :: "event \<Rightarrow> bool" where
  "is_reset (KeyEvent k action rnd) = (k = GLFW_KEY_R \<and> action = GLFW_PRESS)"
| "is_reset (MouseButton button action xpos ypos) = False"
| "is_reset Frame = False"

text \<open>
  The event is an iteration of the main loop that resolves a pending selection and
  counts it as an attempt (\<open>removedCount > 0\<close>).
\<close>

definition resolves :: "config \<Rightarrow> event \<Rightarrow> game \<Rightarrow> bool" where
  "resolves cfg e s =
     (e = Frame \<and> iSelected s \<ge> 0 \<and> \<not> gameOver s \<and>
      (case eliminarSimilares cfg (COLOR_TOLERANCE cfg) s of
         None \<Rightarrow> False
       | Some (s1, removedCount) \<Rightarrow> removedCount > 0))"

text \<open>
  The number of such iterations along a run since the last restart, starting from \<open>k\<close>.
\<close>

fun successes :: "config \<Rightarrow> nat \<Rightarrow> event list \<Rightarrow> game \<Rightarrow> nat" where
  "successes cfg k [] s = k"
| "successes cfg k (e # es) s =
     (case step cfg e s of
        None \<Rightarrow> k
      | Some s' \<Rightarrow> successes cfg (if is_reset e then 0 else if resolves cfg e s then Suc k else k) es s')"

text \<open>
  What holds in every state the program reaches: the matrix has its shape; a pending
  selection is a quad of the matrix that is not eliminated, and the game is not over;
  the counters are bounded by the number of eliminated quads; the game is over exactly
  when the matrix has quads and none of them is active.
\<close>

definition game_inv :: "config \<Rightarrow> game \<Rightarrow> bool" where
  "game_inv cfg s =
     (wf_grid cfg (grid s) \<and>
      (iSelected s = - 1 \<or>
       (0 \<le> iSelected s \<and> iSelected s < int (ROWS cfg * COLS cfg) \<and>
        \<not> eliminated (grid s ! sel_row cfg s ! sel_col cfg s) \<and> \<not> gameOver s)) \<and>
      0 \<le> attempts s \<and> attempts s \<le> int (count_eliminated (grid s)) \<and>
      0 \<le> score s \<and> score s \<le> int (count_eliminated (grid s)) \<and>
      (gameOver s \<longleftrightarrow> (0 < ROWS cfg * COLS cfg \<and> \<not> anyActiveCell cfg (grid s))))"

text \<open>
  The value lies in the left half of cell \<open>n\<close> of a row of cells of width \<open>w\<close>, the half
  being \<open>QUAD_W / 2\<close> of the callback.
\<close>

definition left_half :: "nat \<Rightarrow> nat \<Rightarrow> real \<Rightarrow> bool" where
  "left_half w n v = (real (n * w) \<le> v \<and> v < real (n * w + w div 2))"

text \<open>The scenario of the specification: a matrix of two rows and two columns.\<close>

definition scenario_config :: config where
  "scenario_config = \<lparr>ROWS = 2, COLS = 2, QUAD_W = 100, QUAD_H = 100, COLOR_TOLERANCE = 0.2\<rparr>"

text \<open>Values of \<open>rand()\<close> that give the colours (1,0,0), (1,0,0), (0,0,1), (0,1,0).\<close>

definition scenario_rnd :: "nat \<Rightarrow> nat" where
  "scenario_rnd k = [255, 0, 0, 255, 0, 0, 0, 0, 255, 0, 255, 0] ! k"

definition scenario_start :: game where
  "scenario_start = resetGame scenario_config scenario_rnd (init_game scenario_config)"

text \<open>The matrix of the scenario, with the four \<open>eliminated\<close> flags as parameters.\<close>

definition scenario_grid :: "bool \<Rightarrow> bool \<Rightarrow> bool \<Rightarrow> bool \<Rightarrow> Quad list list" where
  "scenario_grid e00 e01 e10 e11 =
     [[\<lparr>position = Vec3 50 50 0, dimensions = Vec3 100 100 1, color = Vec3 1 0 0, eliminated = e00\<rparr>,
       \<lparr>position = Vec3 150 50 0, dimensions = Vec3 100 100 1, color = Vec3 1 0 0, eliminated = e01\<rparr>],
      [\<lparr>position = Vec3 50 150 0, dimensions = Vec3 100 100 1, color = Vec3 0 0 1, eliminated = e10\<rparr>,
       \<lparr>position = Vec3 150 150 0, dimensions = Vec3 100 100 1, color = Vec3 0 1 0, eliminated = e11\<rparr>]]"

text \<open>A left click at a pixel.\<close>

definition click :: "real \<Rightarrow> real \<Rightarrow> event" where
  "click xpos ypos = MouseButton GLFW_MOUSE_BUTTON_LEFT GLFW_PRESS xpos ypos"

text \<open>
  A row of three quads with the colour levels (0,0,0), (17,17,85) and (51,51,51): the
  second and the third colour are at the normalised distance 0.2 from the first.
\<close>

definition boundary_config :: config where
  "boundary_config = \<lparr>ROWS = 1, COLS = 3, QUAD_W = 100, QUAD_H = 100, COLOR_TOLERANCE = 0.2\<rparr>"

definition boundary_rnd :: "nat \<Rightarrow> nat" where
  "boundary_rnd k = [0, 0, 0, 17, 17, 85, 51, 51, 51] ! k"

definition boundary_start :: game where
  "boundary_start = resetGame boundary_config boundary_rnd (init_game boundary_config)"

definition boundary_grid :: "bool \<Rightarrow> bool \<Rightarrow> bool \<Rightarrow> Quad list list" where
  "boundary_grid e0 e1 e2 =
     [[\<lparr>position = Vec3 50 50 0, dimensions = Vec3 100 100 1, color = Vec3 0 0 0, eliminated = e0\<rparr>,
       \<lparr>position = Vec3 150 50 0, dimensions = Vec3 100 100 1,
          color = Vec3 (17 / 255) (17 / 255) (85 / 255), eliminated = e1\<rparr>,
       \<lparr>position = Vec3 250 50 0, dimensions = Vec3 100 100 1,
          color = Vec3 (51 / 255) (51 / 255) (51 / 255), eliminated = e2\<rparr>]]"

section \<open>Rounding to binary32\<close>

lemma round_even_unique:
  assumes "of_int n - 1 / 2 < y" "y < of_int n + 1 / 2"
  shows "round_even y = n"
proof (cases "of_int n \<le> y")
  case True
  then have "\<lfloor>y\<rfloor> = n" using assms by (intro floor_unique) linarith+
  then show ?thesis using assms True by (simp add: round_even_def)
next
  case False
  then have "\<lfloor>y\<rfloor> = n - 1" using assms by (intro floor_unique) (simp, linarith)+
  then show ?thesis using assms False by (simp add: round_even_def)
qed

lemma round_even_tie:
  assumes "y = of_int n + 1 / 2"
  shows "round_even y = (if even n then n else n + 1)"
proof -
  have "\<lfloor>y\<rfloor> = n" unfolding assms by (intro floor_unique) simp_all
  then show ?thesis by (simp add: round_even_def assms)
qed

lemma round_even_minus: "round_even (- y) = - round_even y"
proof (cases "y = of_int \<lfloor>y\<rfloor>")
  case True
  then obtain m :: int where y: "y = of_int m" ..
  have "round_even (of_int m) = m" by (rule round_even_unique) simp_all
  moreover have "round_even (of_int (- m)) = - m" by (rule round_even_unique) simp_all
  ultimately show ?thesis by (simp add: y)
next
  case False
  let ?f = "\<lfloor>y\<rfloor>"
  have lt: "of_int ?f < y"
    using False by (metis floor_less_cancel floor_of_int less_eq_real_def not_less of_int_floor_le)
  have ub: "y < of_int ?f + 1" by linarith
  have f': "\<lfloor>- y\<rfloor> = - ?f - 1"
  proof (rule floor_unique)
    show "of_int (- ?f - 1) \<le> - y" unfolding of_int_diff of_int_minus of_int_1 using ub by linarith
    show "- y < of_int (- ?f - 1) + 1" unfolding of_int_diff of_int_minus of_int_1 using lt by linarith
  qed
  show ?thesis
    using lt f' by (auto simp: round_even_def Let_def)
qed

lemma float32_minus: "float32 (- x) = - float32 x"
  by (simp add: float32_def Let_def round_even_minus)

lemma float32_zero: "float32 0 = 0"
  by (simp add: float32_def)

lemma sqrtf_zero: "sqrtf 0 = 0"
  by (simp add: sqrtf_def float32_zero)

text \<open>A real with a 24-bit significand at the scale \<open>2 ^ k\<close> rounds at that scale.\<close>

lemma float32_scaled:
  fixes k :: nat
  assumes k: "k \<le> 149"
    and lo: "2 ^ 23 \<le> x * 2 ^ k" and hi: "x * 2 ^ k < 2 ^ 24"
  shows "float32 x = of_int (round_even (x * 2 ^ k)) / 2 ^ k"
proof -
  have "(0::real) < 2 ^ 23" by simp
  then have "0 < x * 2 ^ k" using lo by linarith
  then have pos: "0 < x" by (simp add: zero_less_mult_iff)
  have pk: "(0::real) < 2 ^ k" by simp
  let ?e = "23 - int k"
  have p: "2 powr (real_of_int (j - int k)) = 2 ^ nat j / 2 ^ k" if "0 \<le> j" for j :: int
  proof -
    have "2 powr (real_of_int (j - int k)) = 2 powr (real (nat j) - real k)"
      using that by simp
    also have "\<dots> = 2 powr (real (nat j)) / 2 powr (real k)" by (simp add: powr_diff)
    also have "\<dots> = 2 ^ nat j / 2 ^ k" by (simp add: powr_realpow)
    finally show ?thesis .
  qed
  have pa: "2 powr (real_of_int ?e) = 2 ^ 23 / 2 ^ k" using p [of 23] by simp
  have a: "2 powr (real_of_int ?e) \<le> x"
    unfolding pa using lo pk by (simp add: pos_divide_le_eq)
  have "real_of_int ?e + 1 = real_of_int (24 - int k)" by simp
  then have pb: "2 powr (real_of_int ?e + 1) = 2 ^ 24 / 2 ^ k" using p [of 24] by simp
  have b: "x < 2 powr (real_of_int ?e + 1)"
    unfolding pb using hi pk by (simp add: pos_less_divide_eq)
  have e: "\<lfloor>log 2 x\<rfloor> = ?e"
    using pos a b by (simp add: floor_log_eq_powr_iff)
  have m: "max ?e (- 126) = ?e" using k by simp
  have q: "2 powr (- real k) = 1 / 2 ^ k"
    by (simp add: powr_minus_divide powr_realpow)
  show ?thesis
    using pos by (simp add: float32_def e m q Let_def)
qed

lemma float32_unique:
  fixes k :: nat
  assumes "k \<le> 149" "2 ^ 23 \<le> x * 2 ^ k" "x * 2 ^ k < 2 ^ 24"
    and "of_int n - 1 / 2 < x * 2 ^ k" "x * 2 ^ k < of_int n + 1 / 2"
  shows "float32 x = of_int n / 2 ^ k"
  using float32_scaled [OF assms(1-3)] round_even_unique [OF assms(4,5)] by simp

lemma float32_tie:
  fixes k :: nat
  assumes "k \<le> 149" "2 ^ 23 \<le> x * 2 ^ k" "x * 2 ^ k < 2 ^ 24"
    and "x * 2 ^ k = of_int n + 1 / 2"
  shows "float32 x = of_int (if even n then n else n + 1) / 2 ^ k"
  using float32_scaled [OF assms(1-3)] round_even_tie [OF assms(4)] by simp

lemma sqrtf_unique:
  fixes k :: nat
  assumes k: "k \<le> 149" and n: "0 < n"
    and lo: "(2 ^ 23)\<^sup>2 \<le> a * 4 ^ k" and hi: "a * 4 ^ k < (2 ^ 24)\<^sup>2"
    and n1: "(of_int n - 1 / 2)\<^sup>2 < a * 4 ^ k" and n2: "a * 4 ^ k < (of_int n + 1 / 2)\<^sup>2"
  shows "sqrtf a = of_int n / 2 ^ k"
proof -
  have s: "sqrt a * 2 ^ k = sqrt (a * 4 ^ k)"
  proof -
    have "(4::real) ^ k = (2 ^ k)\<^sup>2"
      by (simp add: power_mult [symmetric] power2_eq_square power_mult_distrib [symmetric])
    then show ?thesis by (simp add: real_sqrt_mult)
  qed
  have h: "0 \<le> real_of_int n - 1 / 2" using n by linarith
  show ?thesis
    unfolding sqrtf_def
  proof (rule float32_unique [OF k])
    show "2 ^ 23 \<le> sqrt a * 2 ^ k" unfolding s using lo by (intro real_le_rsqrt)
    show "sqrt a * 2 ^ k < 2 ^ 24" unfolding s using hi by (intro real_less_lsqrt) simp_all
    show "real_of_int n - 1 / 2 < sqrt a * 2 ^ k" unfolding s using n1 by (intro real_less_rsqrt)
    show "sqrt a * 2 ^ k < real_of_int n + 1 / 2" unfolding s using n2 h by (intro real_less_lsqrt) simp_all
  qed
qed

section \<open>The loops in closed form\<close>

lemma for_loop_fold: "for_loop lo hi body s = fold body [lo..<hi] s"
proof (induction lo hi body s rule: for_loop.induct)
  case (1 lo hi body s)
  show ?case
  proof (cases "lo < hi")
    case True
    then show ?thesis
      using 1 by (simp add: for_loop.simps [of lo hi] upt_conv_Cons)
  next
    case False
    then show ?thesis by (simp add: for_loop.simps [of lo hi])
  qed
qed

lemma elim_cell_mark:
  assumes "i < length gr" "j < length (gr ! i)"
  shows "elim_cell t tol i j (gr, n) =
           (gr[i := (gr ! i)[j := mark t tol (gr ! i ! j)]], n + int (if hit t tol (gr ! i ! j) then 1 else 0))"
  using assms
  by (simp add: elim_cell_def mark_def hit_def within_tolerance32_def Let_def)

lemma elim_row:
  assumes "i < length gr" "m \<le> length (gr ! i)"
  shows "fold (elim_cell t tol i) [0..<m] (gr, n) =
           (gr[i := map (mark t tol) (take m (gr ! i)) @ drop m (gr ! i)],
            n + int (length (filter (hit t tol) (take m (gr ! i)))))"
  using assms
proof (induction m)
  case 0
  then show ?case by simp
next
  case (Suc m)
  let ?row = "gr ! i"
  let ?A = "map (mark t tol) (take m ?row)"
  let ?gr' = "gr[i := ?A @ drop m ?row]"
  have m: "m < length ?row" using Suc.prems by simp
  have lenA: "length ?A = m" using m by simp
  have rowi: "?gr' ! i = ?A @ drop m ?row" using Suc.prems by simp
  have cell: "?gr' ! i ! m = ?row ! m"
    using m lenA by (simp add: rowi nth_append)
  have j: "m < length (?gr' ! i)" using m by (simp add: rowi)
  have upd: "(?A @ drop m ?row)[m := v] = ?A @ v # drop (Suc m) ?row" for v
    using m lenA by (simp add: list_update_append Cons_nth_drop_Suc [symmetric])
  have tk: "take (Suc m) ?row = take m ?row @ [?row ! m]"
    using m by (simp add: take_Suc_conv_app_nth)
  have "fold (elim_cell t tol i) [0..<Suc m] (gr, n) =
          elim_cell t tol i m (?gr', n + int (length (filter (hit t tol) (take m ?row))))"
    using Suc by simp
  also have "\<dots> = (?gr'[i := (?gr' ! i)[m := mark t tol (?row ! m)]],
                    n + int (length (filter (hit t tol) (take m ?row))) + int (if hit t tol (?row ! m) then 1 else 0))"
    using elim_cell_mark [of i ?gr' m t tol] Suc.prems(1) j cell by simp
  also have "\<dots> = (gr[i := map (mark t tol) (take (Suc m) ?row) @ drop (Suc m) ?row],
                    n + int (length (filter (hit t tol) (take (Suc m) ?row))))"
    by (simp only: rowi upd tk list_update_overwrite) simp
  finally show ?case .
qed

lemma elim_grid_aux:
  assumes "m \<le> length gr" "\<forall>row \<in> set gr. length row = C"
  shows "fold (\<lambda>i. fold (elim_cell t tol i) [0..<C]) [0..<m] (gr, n) =
           (map (map (mark t tol)) (take m gr) @ drop m gr,
            n + int (sum_list (map (\<lambda>row. length (filter (hit t tol) row)) (take m gr))))"
  using assms
proof (induction m)
  case 0
  then show ?case by simp
next
  case (Suc m)
  let ?B = "map (map (mark t tol)) (take m gr)"
  let ?gr' = "?B @ drop m gr"
  have m: "m < length gr" using Suc.prems by simp
  have lenB: "length ?B = m" using m by simp
  have rowm: "?gr' ! m = gr ! m" using m lenB by (simp add: nth_append)
  have lenrow: "length (gr ! m) = C" using m Suc.prems by simp
  have i: "m < length ?gr'" using m by simp
  have tk: "take (Suc m) gr = take m gr @ [gr ! m]"
    using m by (simp add: take_Suc_conv_app_nth)
  have upd: "?gr'[m := v] = ?B @ v # drop (Suc m) gr" for v
    using m lenB by (simp add: list_update_append Cons_nth_drop_Suc [symmetric])
  have "fold (\<lambda>i. fold (elim_cell t tol i) [0..<C]) [0..<Suc m] (gr, n) =
          fold (elim_cell t tol m) [0..<C]
            (?gr', n + int (sum_list (map (\<lambda>row. length (filter (hit t tol) row)) (take m gr))))"
    using Suc by simp
  also have "\<dots> = (?gr'[m := map (mark t tol) (gr ! m)],
       n + int (sum_list (map (\<lambda>row. length (filter (hit t tol) row)) (take m gr)))
         + int (length (filter (hit t tol) (gr ! m))))"
    using elim_row [of m ?gr' C t tol] i rowm lenrow by simp
  also have "\<dots> = (map (map (mark t tol)) (take (Suc m) gr) @ drop (Suc m) gr,
            n + int (sum_list (map (\<lambda>row. length (filter (hit t tol) row)) (take (Suc m) gr))))"
    by (simp only: upd tk) simp
  finally show ?case .
qed

lemma for_loop_fold_fun: "for_loop lo hi body = fold body [lo..<hi]"
  by (rule ext) (rule for_loop_fold)

lemma Quad_overwrite:
  "(q :: Quad)\<lparr>position := p, dimensions := d, color := c, eliminated := e\<rparr> =
     \<lparr>position = p, dimensions = d, color = c, eliminated = e\<rparr>"
  by (cases q) simp

lemma wf_grid_nth: "wf_grid cfg gr \<Longrightarrow> i < ROWS cfg \<Longrightarrow> length (gr ! i) = COLS cfg"
  by (simp add: wf_grid_def list_all_length)

lemma wf_grid_rows: "wf_grid cfg gr \<Longrightarrow> \<forall>row \<in> set gr. length row = COLS cfg"
  by (simp add: wf_grid_def list_all_iff)

lemma elim_loops:
  assumes "wf_grid cfg gr"
  shows "for_loop 0 (ROWS cfg) (\<lambda>i. for_loop 0 (COLS cfg) (\<lambda>j. elim_cell t tol i j)) (gr, n) =
           (map (map (mark t tol)) gr,
            n + int (count_hits t tol gr))"
proof -
  have len: "length gr = ROWS cfg" using assms by (simp add: wf_grid_def)
  have "for_loop 0 (ROWS cfg) (\<lambda>i. for_loop 0 (COLS cfg) (\<lambda>j. elim_cell t tol i j)) (gr, n) =
          fold (\<lambda>i. fold (elim_cell t tol i) [0..<COLS cfg]) [0..<length gr] (gr, n)"
    by (simp add: for_loop_fold_fun len)
  also have "\<dots> = (map (map (mark t tol)) (take (length gr) gr) @ drop (length gr) gr,
            n + int (sum_list (map (\<lambda>row. length (filter (hit t tol) row)) (take (length gr) gr))))"
    by (rule elim_grid_aux) (simp_all add: wf_grid_rows [OF assms])
  finally show ?thesis by (simp add: count_hits_def)
qed

lemma reset_cell_fresh:
  "reset_cell cfg rnd i j (gr, k) = (gr[i := (gr ! i)[j := fresh_quad cfg rnd i j k]], k + 3)"
  by (simp add: reset_cell_def fresh_quad_def Let_def Quad_overwrite)

lemma reset_row:
  assumes "i < length gr" "m \<le> length (gr ! i)"
  shows "fold (reset_cell cfg rnd i) [0..<m] (gr, k) =
           (gr[i := map (\<lambda>j. fresh_quad cfg rnd i j (k + 3 * j)) [0..<m] @ drop m (gr ! i)], k + 3 * m)"
  using assms
proof (induction m)
  case 0
  then show ?case by simp
next
  case (Suc m)
  let ?row = "gr ! i"
  let ?A = "map (\<lambda>j. fresh_quad cfg rnd i j (k + 3 * j)) [0..<m]"
  let ?gr' = "gr[i := ?A @ drop m ?row]"
  have m: "m < length ?row" using Suc.prems by simp
  have rowi: "?gr' ! i = ?A @ drop m ?row" using Suc.prems by simp
  have upd: "(?A @ drop m ?row)[m := v] = ?A @ v # drop (Suc m) ?row" for v
    using m by (simp add: list_update_append Cons_nth_drop_Suc [symmetric])
  have "fold (reset_cell cfg rnd i) [0..<Suc m] (gr, k) = reset_cell cfg rnd i m (?gr', k + 3 * m)"
    using Suc by simp
  also have "\<dots> = (?gr'[i := (?gr' ! i)[m := fresh_quad cfg rnd i m (k + 3 * m)]], k + 3 * m + 3)"
    by (rule reset_cell_fresh)
  also have "\<dots> = (gr[i := map (\<lambda>j. fresh_quad cfg rnd i j (k + 3 * j)) [0..<Suc m] @ drop (Suc m) ?row],
                    k + 3 * Suc m)"
    by (simp only: rowi upd list_update_overwrite) simp
  finally show ?case .
qed

lemma reset_grid_aux:
  assumes "m \<le> length gr" "\<forall>row \<in> set gr. length row = C"
  shows "fold (\<lambda>i. fold (reset_cell cfg rnd i) [0..<C]) [0..<m] (gr, k) =
           (map (\<lambda>i. map (\<lambda>j. fresh_quad cfg rnd i j (k + 3 * (i * C + j))) [0..<C]) [0..<m] @ drop m gr,
            k + 3 * (m * C))"
  using assms
proof (induction m)
  case 0
  then show ?case by simp
next
  case (Suc m)
  let ?B = "map (\<lambda>i. map (\<lambda>j. fresh_quad cfg rnd i j (k + 3 * (i * C + j))) [0..<C]) [0..<m]"
  let ?gr' = "?B @ drop m gr"
  have m: "m < length gr" using Suc.prems by simp
  have rowm: "?gr' ! m = gr ! m" using m by (simp add: nth_append)
  have lenrow: "length (gr ! m) = C" using m Suc.prems by simp
  have i: "m < length ?gr'" using m by simp
  have upd: "?gr'[m := v] = ?B @ v # drop (Suc m) gr" for v
    using m by (simp add: list_update_append Cons_nth_drop_Suc [symmetric])
  have "fold (\<lambda>i. fold (reset_cell cfg rnd i) [0..<C]) [0..<Suc m] (gr, k) =
          fold (reset_cell cfg rnd m) [0..<C] (?gr', k + 3 * (m * C))"
    using Suc by simp
  also have "\<dots> = (?gr'[m := map (\<lambda>j. fresh_quad cfg rnd m j (k + 3 * (m * C) + 3 * j)) [0..<C]],
                    k + 3 * (m * C) + 3 * C)"
    using reset_row [of m ?gr' C cfg rnd "k + 3 * (m * C)"] i rowm lenrow by simp
  also have "\<dots> = (map (\<lambda>i. map (\<lambda>j. fresh_quad cfg rnd i j (k + 3 * (i * C + j))) [0..<C]) [0..<Suc m]
                      @ drop (Suc m) gr, k + 3 * (Suc m * C))"
    by (simp only: upd) (simp add: algebra_simps)
  finally show ?case .
qed

lemma resetGame_closed:
  assumes "wf_grid cfg (grid s)"
  shows "resetGame cfg rnd s =
           \<lparr>grid = map (\<lambda>i. map (\<lambda>j. fresh_quad cfg rnd i j (3 * (i * COLS cfg + j))) [0..<COLS cfg]) [0..<ROWS cfg],
            attempts = 0, score = 0, gameOver = False, iSelected = - 1\<rparr>"
proof -
  have len: "length (grid s) = ROWS cfg" using assms by (simp add: wf_grid_def)
  have "for_loop 0 (ROWS cfg) (\<lambda>i. for_loop 0 (COLS cfg) (\<lambda>j. reset_cell cfg rnd i j)) (grid s, 0) =
          fold (\<lambda>i. fold (reset_cell cfg rnd i) [0..<COLS cfg]) [0..<length (grid s)] (grid s, 0)"
    by (simp add: for_loop_fold_fun len)
  also have "\<dots> = (map (\<lambda>i. map (\<lambda>j. fresh_quad cfg rnd i j (0 + 3 * (i * COLS cfg + j))) [0..<COLS cfg])
                        [0..<length (grid s)] @ drop (length (grid s)) (grid s),
                    0 + 3 * (length (grid s) * COLS cfg))"
    by (rule reset_grid_aux) (simp_all add: wf_grid_rows [OF assms])
  finally show ?thesis
    by (simp add: resetGame_def len)
qed

lemma anyActive_cols_iff:
  "anyActive_cols cfg gr i j \<longleftrightarrow> (\<exists>j'. j \<le> j' \<and> j' < COLS cfg \<and> \<not> eliminated (gr ! i ! j'))"
proof (induction cfg gr i j rule: anyActive_cols.induct)
  case (1 cfg gr i j)
  show ?case
  proof (cases "j < COLS cfg")
    case False
    then show ?thesis by (simp add: anyActive_cols.simps [of cfg gr i j])
  next
    case True
    show ?thesis
    proof (cases "eliminated (gr ! i ! j)")
      case False
      with True show ?thesis by (auto simp: anyActive_cols.simps [of cfg gr i j])
    next
      case e: True
      have "(\<exists>j'. j \<le> j' \<and> j' < COLS cfg \<and> \<not> eliminated (gr ! i ! j')) \<longleftrightarrow>
            (\<exists>j'. Suc j \<le> j' \<and> j' < COLS cfg \<and> \<not> eliminated (gr ! i ! j'))"
        using e by (metis Suc_leI le_neq_implies_less Suc_leD)
      with True e 1 show ?thesis by (simp add: anyActive_cols.simps [of cfg gr i j])
    qed
  qed
qed

lemma anyActive_rows_iff:
  "anyActive_rows cfg gr i \<longleftrightarrow>
     (\<exists>i'. i \<le> i' \<and> i' < ROWS cfg \<and> (\<exists>j < COLS cfg. \<not> eliminated (gr ! i' ! j)))"
proof (induction cfg gr i rule: anyActive_rows.induct)
  case (1 cfg gr i)
  show ?case
  proof (cases "i < ROWS cfg")
    case False
    then show ?thesis by (simp add: anyActive_rows.simps [of cfg gr i])
  next
    case True
    show ?thesis
    proof (cases "anyActive_cols cfg gr i 0")
      case a: True
      with True show ?thesis
        by (auto simp: anyActive_rows.simps [of cfg gr i] anyActive_cols_iff)
    next
      case a: False
      then have none: "\<not> (\<exists>j < COLS cfg. \<not> eliminated (gr ! i ! j))"
        by (simp add: anyActive_cols_iff)
      have "(\<exists>i'. i \<le> i' \<and> i' < ROWS cfg \<and> (\<exists>j < COLS cfg. \<not> eliminated (gr ! i' ! j))) \<longleftrightarrow>
            (\<exists>i'. Suc i \<le> i' \<and> i' < ROWS cfg \<and> (\<exists>j < COLS cfg. \<not> eliminated (gr ! i' ! j)))"
        using none by (metis Suc_leI le_neq_implies_less Suc_leD)
      with True a 1 show ?thesis by (simp add: anyActive_rows.simps [of cfg gr i])
    qed
  qed
qed

lemma anyActiveCell_iff:
  "anyActiveCell cfg gr \<longleftrightarrow> (\<exists>i < ROWS cfg. \<exists>j < COLS cfg. \<not> eliminated (gr ! i ! j))"
  by (auto simp: anyActiveCell_def anyActive_rows_iff)

section \<open>Counting eliminated quads\<close>

lemma filter_mark_length:
  "length (filter (eliminated \<circ> mark t tol) row) =
     length (filter eliminated row) + length (filter (hit t tol) row)"
  by (induction row) (auto simp: mark_def hit_def)

lemma count_eliminated_mark:
  "count_eliminated (map (map (mark t tol)) gr) = count_eliminated gr + count_hits t tol gr"
  by (induction gr) (simp_all add: count_eliminated_def count_hits_def filter_mark_length)

lemma filter_update_length:
  assumes "j < length xs" "\<not> P (xs ! j)" "P v"
  shows "length (filter P (xs[j := v])) = Suc (length (filter P xs))"
proof -
  have "xs = take j xs @ xs ! j # drop (Suc j) xs"
    using assms(1) by (simp add: id_take_nth_drop [symmetric])
  then have "length (filter P xs) = length (filter P (take j xs)) + length (filter P (drop (Suc j) xs))"
    using assms(2) by (metis filter.simps(2) filter_append length_append)
  moreover have "xs[j := v] = take j xs @ v # drop (Suc j) xs"
    using assms(1) by (simp add: upd_conv_take_nth_drop)
  ultimately show ?thesis using assms(3) by simp
qed

lemma count_eliminated_update:
  assumes "i < length gr" "j < length (gr ! i)" "\<not> eliminated (gr ! i ! j)"
  shows "count_eliminated (gr[i := (gr ! i)[j := (gr ! i ! j)\<lparr>eliminated := True\<rparr>]]) =
           Suc (count_eliminated gr)"
proof -
  let ?f = "\<lambda>row. length (filter eliminated row)"
  have "gr = take i gr @ gr ! i # drop (Suc i) gr"
    using assms(1) by (simp add: id_take_nth_drop [symmetric])
  then have a: "count_eliminated gr = sum_list (map ?f (take i gr)) + ?f (gr ! i) + sum_list (map ?f (drop (Suc i) gr))"
    unfolding count_eliminated_def by (metis (no_types, lifting) add.assoc list.simps(9) map_append sum_list.Cons sum_list.append)
  have "gr[i := r] = take i gr @ r # drop (Suc i) gr" for r
    using assms(1) by (simp add: upd_conv_take_nth_drop)
  then have b: "count_eliminated (gr[i := r]) = sum_list (map ?f (take i gr)) + ?f r + sum_list (map ?f (drop (Suc i) gr))" for r
    by (simp add: count_eliminated_def)
  show ?thesis
    using a b filter_update_length [of j "gr ! i" eliminated "(gr ! i ! j)\<lparr>eliminated := True\<rparr>"] assms
    by simp
qed

lemma count_eliminated_update_same:
  assumes "i < length gr" "j < length (gr ! i)" "eliminated (gr ! i ! j)"
  shows "gr[i := (gr ! i)[j := (gr ! i ! j)\<lparr>eliminated := True\<rparr>]] = gr"
proof -
  have "(gr ! i ! j)\<lparr>eliminated := True\<rparr> = gr ! i ! j"
    using assms(3) by simp
  then show ?thesis by simp
qed

lemma count_eliminated_le:
  assumes "wf_grid cfg gr"
  shows "count_eliminated gr \<le> ROWS cfg * COLS cfg"
proof -
  have "sum_list (map (\<lambda>row. length (filter eliminated row)) gr) \<le> length gr * COLS cfg"
    using wf_grid_rows [OF assms]
  proof (induction gr)
    case Nil
    then show ?case by simp
  next
    case (Cons row gr)
    have "length (filter eliminated row) \<le> COLS cfg"
      using Cons.prems length_filter_le [of eliminated row] by simp
    with Cons show ?case by simp
  qed
  then show ?thesis using assms by (simp add: count_eliminated_def wf_grid_def)
qed

section \<open>A resolution in closed form\<close>

lemma sel_in_grid:
  assumes "0 \<le> iSelected s" "iSelected s < int (ROWS cfg * COLS cfg)"
  shows "0 < COLS cfg" "sel_row cfg s < ROWS cfg" "sel_col cfg s < COLS cfg"
proof -
  show c: "0 < COLS cfg" using assms by (cases "COLS cfg = 0") simp_all
  have "nat (iSelected s) < ROWS cfg * COLS cfg" using assms by linarith
  then show "sel_row cfg s < ROWS cfg"
    unfolding sel_row_def using c by (simp add: less_mult_imp_div_less)
  show "sel_col cfg s < COLS cfg" unfolding sel_col_def using c by simp
qed

lemma eliminarSimilares_closed:
  assumes wf: "wf_grid cfg (grid s)"
    and sel: "0 \<le> iSelected s" "iSelected s < int (ROWS cfg * COLS cfg)"
  defines "g1 \<equiv> (grid s)[sel_row cfg s := (grid s ! sel_row cfg s)
                     [sel_col cfg s := (grid s ! sel_row cfg s ! sel_col cfg s)\<lparr>eliminated := True\<rparr>]]"
    and "t \<equiv> color (grid s ! sel_row cfg s ! sel_col cfg s)"
  shows "eliminarSimilares cfg tol s =
           Some (s\<lparr>grid := map (map (mark t tol)) g1, iSelected := - 1\<rparr>, 1 + int (count_hits t tol g1))"
proof -
  note in_grid = sel_in_grid [OF sel]
  have len: "length (grid s) = ROWS cfg" using wf by (simp add: wf_grid_def)
  have lenrow: "length (grid s ! sel_row cfg s) = COLS cfg"
    using wf in_grid by (simp add: wf_grid_nth)
  have wf1: "wf_grid cfg g1"
    using wf in_grid unfolding g1_def wf_grid_def list_all_length
    by (auto simp: nth_list_update)
  have tgt: "color (g1 ! sel_row cfg s ! sel_col cfg s) = t"
    unfolding g1_def t_def using in_grid len lenrow by simp
  show ?thesis
    unfolding eliminarSimilares_def
    using sel in_grid
    by (simp add: Let_def sel_row_def [symmetric] sel_col_def [symmetric] g1_def [symmetric] tgt
        elim_loops [OF wf1])
qed

lemma wf_grid_init: "wf_grid cfg (grid (init_game cfg))"
  by (simp add: wf_grid_def init_game_def list_all_length)

lemma wf_grid_reset: "wf_grid cfg (grid s) \<Longrightarrow> wf_grid cfg (grid (resetGame cfg rnd s))"
  by (simp add: resetGame_closed wf_grid_def list_all_length)

lemma reset_cell_nth:
  assumes "wf_grid cfg (grid s)" "i < ROWS cfg" "j < COLS cfg"
  shows "grid (resetGame cfg rnd s) ! i ! j = fresh_quad cfg rnd i j (3 * (i * COLS cfg + j))"
  using assms by (simp add: resetGame_closed)

lemma elim_Some_bounds:
  assumes "0 \<le> iSelected s" "eliminarSimilares cfg tol s = Some x"
  shows "iSelected s < int (ROWS cfg * COLS cfg)"
proof -
  have c: "0 < COLS cfg" and r: "nat (iSelected s) div COLS cfg < ROWS cfg"
    using assms by (auto simp: eliminarSimilares_def Let_def split: if_splits)
  then have "nat (iSelected s) < ROWS cfg * COLS cfg"
    by (simp add: div_less_iff_less_mult)
  then show ?thesis using assms(1) by linarith
qed

lemma mark_selected_wf:
  assumes "wf_grid cfg gr"
  shows "wf_grid cfg (gr[i := (gr ! i)[j := q]])"
proof (cases "i < length gr")
  case True
  then show ?thesis
    using assms unfolding wf_grid_def list_all_length
    by (auto simp: nth_list_update)
next
  case False
  then have "gr[i := (gr ! i)[j := q]] = gr" by (simp add: list_update_beyond)
  then show ?thesis using assms by simp
qed

lemma mark_selected_nth:
  assumes "wf_grid cfg gr" "i < ROWS cfg" "j < COLS cfg" "i' < ROWS cfg" "j' < COLS cfg"
  shows "gr[i := (gr ! i)[j := q]] ! i' ! j' = (if i' = i \<and> j' = j then q else gr ! i' ! j')"
  using assms by (auto simp: wf_grid_def list_all_length nth_list_update)

text \<open>What a resolution of a pending selection returns, cell by cell.\<close>

lemma eliminarSimilares_pending:
  assumes wf: "wf_grid cfg (grid s)"
    and sel: "0 \<le> iSelected s" "iSelected s < int (ROWS cfg * COLS cfg)"
  shows "\<exists>s' n. eliminarSimilares cfg tol s = Some (s', n) \<and>
           wf_grid cfg (grid s') \<and> iSelected s' = - 1 \<and>
           attempts s' = attempts s \<and> score s' = score s \<and> gameOver s' = gameOver s \<and>
           1 \<le> n \<and>
           int (count_eliminated (grid s')) =
             int (count_eliminated (grid s)) + n -
               (if eliminated (grid s ! sel_row cfg s ! sel_col cfg s) then 1 else 0) \<and>
           (\<forall>i < ROWS cfg. \<forall>j < COLS cfg.
              grid s' ! i ! j = (grid s ! i ! j)\<lparr>eliminated :=
                 (eliminated (grid s ! i ! j) \<or> (i = sel_row cfg s \<and> j = sel_col cfg s) \<or>
                  within_tolerance32 (color (grid s ! sel_row cfg s ! sel_col cfg s)) tol (color (grid s ! i ! j)))\<rparr>)"
proof -
  let ?r = "sel_row cfg s" and ?c = "sel_col cfg s"
  let ?t = "color (grid s ! ?r ! ?c)"
  let ?g1 = "(grid s)[?r := (grid s ! ?r)[?c := (grid s ! ?r ! ?c)\<lparr>eliminated := True\<rparr>]]"
  let ?s' = "s\<lparr>grid := map (map (mark ?t tol)) ?g1, iSelected := - 1\<rparr>"
  let ?n = "1 + int (count_hits ?t tol ?g1)"
  note in_grid = sel_in_grid [OF sel]
  have len: "length (grid s) = ROWS cfg" using wf by (simp add: wf_grid_def)
  have lenrow: "length (grid s ! ?r) = COLS cfg" using wf in_grid by (simp add: wf_grid_nth)
  have wf1: "wf_grid cfg ?g1" by (rule mark_selected_wf [OF wf])
  have eq: "eliminarSimilares cfg tol s = Some (?s', ?n)"
    by (rule eliminarSimilares_closed [OF wf sel])
  have wf': "wf_grid cfg (grid ?s')"
    using wf1 by (simp add: wf_grid_def list_all_length)
  have cnt1: "int (count_eliminated ?g1) =
                int (count_eliminated (grid s)) + 1 - (if eliminated (grid s ! ?r ! ?c) then 1 else 0)"
  proof (cases "eliminated (grid s ! ?r ! ?c)")
    case True
    then show ?thesis
      using count_eliminated_update_same [of ?r "grid s" ?c] in_grid len lenrow by simp
  next
    case False
    then show ?thesis
      using count_eliminated_update [of ?r "grid s" ?c] in_grid len lenrow by simp
  qed
  have cnt: "int (count_eliminated (grid ?s')) =
               int (count_eliminated (grid s)) + ?n - (if eliminated (grid s ! ?r ! ?c) then 1 else 0)"
    using cnt1 by (simp add: count_eliminated_mark)
  have cells: "grid ?s' ! i ! j = (grid s ! i ! j)\<lparr>eliminated :=
                 (eliminated (grid s ! i ! j) \<or> (i = ?r \<and> j = ?c) \<or>
                  within_tolerance32 ?t tol (color (grid s ! i ! j)))\<rparr>"
    if "i < ROWS cfg" "j < COLS cfg" for i j
  proof -
    have l1: "length ?g1 = ROWS cfg" and l2: "length (?g1 ! i) = COLS cfg"
      using wf1 that by (simp_all add: wf_grid_def list_all_length)
    have a: "grid ?s' ! i ! j = mark ?t tol (?g1 ! i ! j)"
      using that l1 l2 by simp
    have b: "?g1 ! i ! j = (if i = ?r \<and> j = ?c then (grid s ! ?r ! ?c)\<lparr>eliminated := True\<rparr> else grid s ! i ! j)"
      by (rule mark_selected_nth [OF wf in_grid(2,3) that])
    show ?thesis
      unfolding a b by (cases "grid s ! i ! j") (auto simp: mark_def hit_def)
  qed
  show ?thesis
    using eq wf' cnt cells by (intro exI [of _ ?s'] exI [of _ ?n]) simp
qed

section \<open>resetGame and eliminarSimilares\<close>

lemma count_flipped_row:
  assumes "list_all2 (\<lambda>q q'. eliminated q \<longrightarrow> eliminated q') xs ys"
  shows "length (filter (\<lambda>(q, q'). \<not> eliminated q \<and> eliminated q') (zip xs ys)) + length (filter eliminated xs) =
           length (filter eliminated ys)"
  using assms by (induction rule: list_all2_induct) auto

lemma count_flipped_grid:
  assumes "list_all2 (list_all2 (\<lambda>q q'. eliminated q \<longrightarrow> eliminated q')) gr gr'"
  shows "count_flipped gr gr' + count_eliminated gr = count_eliminated gr'"
  using assms
proof (induction rule: list_all2_induct)
  case Nil
  then show ?case by (simp add: count_flipped_def count_eliminated_def)
next
  case (Cons row gr row' gr')
  then show ?case
    using count_flipped_row [of row row']
    by (simp add: count_flipped_def count_eliminated_def)
qed

lemma count_flipped_pointwise:
  assumes "wf_grid cfg gr" "wf_grid cfg gr'"
    and "\<And>i j. i < ROWS cfg \<Longrightarrow> j < COLS cfg \<Longrightarrow> eliminated (gr ! i ! j) \<Longrightarrow> eliminated (gr' ! i ! j)"
  shows "count_flipped gr gr' + count_eliminated gr = count_eliminated gr'"
proof (rule count_flipped_grid)
  show "list_all2 (list_all2 (\<lambda>q q'. eliminated q \<longrightarrow> eliminated q')) gr gr'"
    using assms by (simp add: list_all2_conv_all_nth wf_grid_def list_all_length)
qed

text \<open>
  C7: after \<open>resetGame\<close> the quad at \<open>(row, col)\<close> has its centre at
  \<open>(col * QUAD_W + QUAD_W / 2, row * QUAD_H + QUAD_H / 2)\<close>, for every matrix shape and
  every quad size.
\<close>

theorem resetGame_layout:
  assumes "wf_grid cfg (grid s)" "row < ROWS cfg" "col < COLS cfg"
  shows "position (grid (resetGame cfg rnd s) ! row ! col) =
           Vec3 (real col * real (QUAD_W cfg) + real (QUAD_W cfg) / 2)
                (real row * real (QUAD_H cfg) + real (QUAD_H cfg) / 2) 0"
  using assms by (simp add: reset_cell_nth fresh_quad_def)

theorem resetGame_layout_witness:
  "wf_grid source_config (grid (init_game source_config)) \<and>
   (5::nat) < ROWS source_config \<and> (7::nat) < COLS source_config \<and>
   position (grid (resetGame source_config (\<lambda>k. k) (init_game source_config)) ! 5 ! 7) = Vec3 750 550 0"
proof -
  have wf: "wf_grid source_config (grid (init_game source_config))" by (rule wf_grid_init)
  have r: "(5::nat) < ROWS source_config" and c: "(7::nat) < COLS source_config"
    by (simp_all add: source_config_def)
  show ?thesis
    using wf r c resetGame_layout [OF wf r c, of "\<lambda>k. k"] by (simp add: source_config_def)
qed

lemma mod_preimages:
  fixes n m k :: nat
  assumes "k < n"
  shows "card {v. v < n * m \<and> v mod n = k} = m"
proof -
  have n: "0 < n" using assms by simp
  have "{v. v < n * m \<and> v mod n = k} = (\<lambda>q. n * q + k) ` {..<m}"
  proof (rule set_eqI, rule iffI)
    fix v assume "v \<in> {v. v < n * m \<and> v mod n = k}"
    then have v: "v < n * m" "v mod n = k" by simp_all
    have "v = n * (v div n) + k" using v(2) mult_div_mod_eq [of n v] by simp
    moreover have "v div n < m" using v(1) n by (simp add: less_mult_imp_div_less mult.commute)
    ultimately show "v \<in> (\<lambda>q. n * q + k) ` {..<m}" by blast
  next
    fix v assume "v \<in> (\<lambda>q. n * q + k) ` {..<m}"
    then obtain q where q: "q < m" "v = n * q + k" by auto
    have "n * q + k < n * q + n" using assms by simp
    also have "\<dots> = n * Suc q" by simp
    also have "\<dots> \<le> n * m" using q(1) by (intro mult_le_mono2) simp
    finally have "v < n * m" using q(2) by simp
    moreover have "v mod n = k" using q(2) assms by simp
    ultimately show "v \<in> {v. v < n * m \<and> v mod n = k}" by simp
  qed
  moreover have "inj_on (\<lambda>q. n * q + k) {..<m}" using n by (simp add: inj_on_def)
  ultimately show ?thesis by (simp add: card_image)
qed

text \<open>
  C8: after \<open>resetGame\<close> the counters are 0, the game is not over, no selection is
  pending, no quad is eliminated, and every colour channel is \<open>k / 255\<close> with
  \<open>k = rand() % 256\<close>, a level between 0 and 255, so that the channel lies between 0 and 1.
  The levels are uniform when \<open>rand()\<close> is: among the values below a multiple \<open>256 * m\<close> of
  256, every level is the image of exactly \<open>m\<close> values.
\<close>

theorem resetGame_state:
  assumes "wf_grid cfg (grid s)"
  shows "attempts (resetGame cfg rnd s) = 0 \<and> score (resetGame cfg rnd s) = 0 \<and>
         \<not> gameOver (resetGame cfg rnd s) \<and> iSelected (resetGame cfg rnd s) = - 1 \<and>
         (\<forall>i < ROWS cfg. \<forall>j < COLS cfg.
            \<not> eliminated (grid (resetGame cfg rnd s) ! i ! j) \<and>
            (\<exists>kr kg kb. kr < 256 \<and> kg < 256 \<and> kb < 256 \<and>
               kr = rnd (3 * (i * COLS cfg + j)) mod 256 \<and>
               kg = rnd (3 * (i * COLS cfg + j) + 1) mod 256 \<and>
               kb = rnd (3 * (i * COLS cfg + j) + 2) mod 256 \<and>
               color (grid (resetGame cfg rnd s) ! i ! j) = Vec3 (real kr / 255) (real kg / 255) (real kb / 255)) \<and>
            0 \<le> vec_r (color (grid (resetGame cfg rnd s) ! i ! j)) \<and>
            vec_r (color (grid (resetGame cfg rnd s) ! i ! j)) \<le> 1 \<and>
            0 \<le> vec_g (color (grid (resetGame cfg rnd s) ! i ! j)) \<and>
            vec_g (color (grid (resetGame cfg rnd s) ! i ! j)) \<le> 1 \<and>
            0 \<le> vec_b (color (grid (resetGame cfg rnd s) ! i ! j)) \<and>
            vec_b (color (grid (resetGame cfg rnd s) ! i ! j)) \<le> 1) \<and>
         (\<forall>m. \<forall>k < 256. card {v. v < 256 * m \<and> v mod 256 = k} = m)"
proof -
  have fields: "attempts (resetGame cfg rnd s) = 0 \<and> score (resetGame cfg rnd s) = 0 \<and>
         \<not> gameOver (resetGame cfg rnd s) \<and> iSelected (resetGame cfg rnd s) = - 1"
    by (simp add: resetGame_closed [OF assms])
  have chan: "0 \<le> real (v mod 256) / 255 \<and> real (v mod 256) / 255 \<le> 1" for v :: nat
  proof -
    have "v mod 256 < 256" by simp
    then have "real (v mod 256) \<le> 255" by linarith
    then show ?thesis by simp
  qed
  have cells: "\<forall>i < ROWS cfg. \<forall>j < COLS cfg.
            \<not> eliminated (grid (resetGame cfg rnd s) ! i ! j) \<and>
            (\<exists>kr kg kb. kr < 256 \<and> kg < 256 \<and> kb < 256 \<and>
               kr = rnd (3 * (i * COLS cfg + j)) mod 256 \<and>
               kg = rnd (3 * (i * COLS cfg + j) + 1) mod 256 \<and>
               kb = rnd (3 * (i * COLS cfg + j) + 2) mod 256 \<and>
               color (grid (resetGame cfg rnd s) ! i ! j) = Vec3 (real kr / 255) (real kg / 255) (real kb / 255)) \<and>
            0 \<le> vec_r (color (grid (resetGame cfg rnd s) ! i ! j)) \<and>
            vec_r (color (grid (resetGame cfg rnd s) ! i ! j)) \<le> 1 \<and>
            0 \<le> vec_g (color (grid (resetGame cfg rnd s) ! i ! j)) \<and>
            vec_g (color (grid (resetGame cfg rnd s) ! i ! j)) \<le> 1 \<and>
            0 \<le> vec_b (color (grid (resetGame cfg rnd s) ! i ! j)) \<and>
            vec_b (color (grid (resetGame cfg rnd s) ! i ! j)) \<le> 1"
    using chan by (simp add: reset_cell_nth [OF assms] fresh_quad_def)
  have unif: "\<forall>m. \<forall>k < 256. card {v. v < 256 * m \<and> v mod 256 = k} = m"
    using mod_preimages [of _ 256] by blast
  from fields cells unif show ?thesis by blast
qed

theorem resetGame_state_witness:
  "wf_grid source_config (grid (init_game source_config)) \<and>
   attempts (resetGame source_config (\<lambda>k. 7 * k) (init_game source_config)) = 0 \<and>
   score (resetGame source_config (\<lambda>k. 7 * k) (init_game source_config)) = 0 \<and>
   \<not> gameOver (resetGame source_config (\<lambda>k. 7 * k) (init_game source_config)) \<and>
   iSelected (resetGame source_config (\<lambda>k. 7 * k) (init_game source_config)) = - 1 \<and>
   \<not> eliminated (grid (resetGame source_config (\<lambda>k. 7 * k) (init_game source_config)) ! 5 ! 7) \<and>
   color (grid (resetGame source_config (\<lambda>k. 7 * k) (init_game source_config)) ! 5 ! 7) =
     Vec3 (219 / 255) (226 / 255) (233 / 255)"
proof -
  have wf: "wf_grid source_config (grid (init_game source_config))" by (rule wf_grid_init)
  have r: "(5::nat) < ROWS source_config" and c: "(7::nat) < COLS source_config"
    by (simp_all add: source_config_def)
  from resetGame_state [OF wf, of "\<lambda>k. 7 * k"] r c
  have "\<not> eliminated (grid (resetGame source_config (\<lambda>k. 7 * k) (init_game source_config)) ! 5 ! 7) \<and>
        color (grid (resetGame source_config (\<lambda>k. 7 * k) (init_game source_config)) ! 5 ! 7) =
          Vec3 (real ((7 * (3 * (5 * COLS source_config + 7))) mod 256) / 255)
               (real ((7 * (3 * (5 * COLS source_config + 7) + 1)) mod 256) / 255)
               (real ((7 * (3 * (5 * COLS source_config + 7) + 2)) mod 256) / 255)"
    by blast
  then show ?thesis
    using wf resetGame_state [OF wf, of "\<lambda>k. 7 * k"] by (simp add: source_config_def)
qed

text \<open>
  C1, as the program computes it: a resolution of a pending selection eliminates a quad other
  than the selected one exactly when the quad was not eliminated before and the normalised
  distance of its colour to the colour of the selected quad, evaluated in binary32
  arithmetic, is at most the binary32 tolerance. Quads that are only close to other removed
  quads stay. With exact real arithmetic in place of binary32 the statement fails where the
  distance equals the tolerance: of two colours at the distance 0.2 from the selected one,
  the program removes one and keeps the other.
\<close>

theorem eliminarSimilares_tolerance32:
  assumes "wf_grid cfg (grid s)" "0 \<le> iSelected s" "iSelected s < int (ROWS cfg * COLS cfg)"
  shows "\<exists>s' n. eliminarSimilares cfg tol s = Some (s', n) \<and>
           (\<forall>i < ROWS cfg. \<forall>j < COLS cfg. (i, j) \<noteq> (sel_row cfg s, sel_col cfg s) \<longrightarrow>
              ((\<not> eliminated (grid s ! i ! j) \<and> eliminated (grid s' ! i ! j)) \<longleftrightarrow>
               (\<not> eliminated (grid s ! i ! j) \<and>
                within_tolerance32 (color (grid s ! sel_row cfg s ! sel_col cfg s)) tol (color (grid s ! i ! j)))))"
proof -
  from eliminarSimilares_pending [OF assms, of tol]
  obtain s' n where res: "eliminarSimilares cfg tol s = Some (s', n)"
    and cells: "\<forall>i < ROWS cfg. \<forall>j < COLS cfg.
              grid s' ! i ! j = (grid s ! i ! j)\<lparr>eliminated :=
                 (eliminated (grid s ! i ! j) \<or> (i = sel_row cfg s \<and> j = sel_col cfg s) \<or>
                  within_tolerance32 (color (grid s ! sel_row cfg s ! sel_col cfg s)) tol (color (grid s ! i ! j)))\<rparr>"
    by blast
  show ?thesis
  proof (intro exI conjI allI impI)
    show "eliminarSimilares cfg tol s = Some (s', n)" by (rule res)
  next
    fix i j
    assume "i < ROWS cfg" "j < COLS cfg" "(i, j) \<noteq> (sel_row cfg s, sel_col cfg s)"
    then show "(\<not> eliminated (grid s ! i ! j) \<and> eliminated (grid s' ! i ! j)) \<longleftrightarrow>
               (\<not> eliminated (grid s ! i ! j) \<and>
                within_tolerance32 (color (grid s ! sel_row cfg s ! sel_col cfg s)) tol (color (grid s ! i ! j)))"
      using cells by auto
  qed
qed

text \<open>
  C3: without a pending selection \<open>eliminarSimilares\<close> returns 0 and leaves the state as it
  is. With a pending selection it eliminates the selected quad, returns the number of quads
  it eliminated, the selected quad included, which is at least 1, and leaves no selection
  pending. (Were the selected quad eliminated already, it would be counted all the same.)
\<close>

theorem eliminarSimilares_result:
  assumes "wf_grid cfg (grid s)"
  shows "(iSelected s < 0 \<longrightarrow> eliminarSimilares cfg tol s = Some (s, 0)) \<and>
         (0 \<le> iSelected s \<and> iSelected s < int (ROWS cfg * COLS cfg) \<longrightarrow>
            (\<exists>s' n. eliminarSimilares cfg tol s = Some (s', n) \<and>
               eliminated (grid s' ! sel_row cfg s ! sel_col cfg s) \<and>
               n = int (count_flipped (grid s) (grid s')) +
                     (if eliminated (grid s ! sel_row cfg s ! sel_col cfg s) then 1 else 0) \<and>
               1 \<le> n \<and> iSelected s' = - 1))"
proof (intro conjI impI)
  assume "iSelected s < 0"
  then show "eliminarSimilares cfg tol s = Some (s, 0)"
    by (simp add: eliminarSimilares_def)
next
  assume sel: "0 \<le> iSelected s \<and> iSelected s < int (ROWS cfg * COLS cfg)"
  then have sel1: "0 \<le> iSelected s" and sel2: "iSelected s < int (ROWS cfg * COLS cfg)" by simp_all
  note in_grid = sel_in_grid [OF sel1 sel2]
  from eliminarSimilares_pending [OF assms sel1 sel2, of tol]
  obtain s' n where res: "eliminarSimilares cfg tol s = Some (s', n)"
    and wf': "wf_grid cfg (grid s')" and isel: "iSelected s' = - 1" and n1: "1 \<le> n"
    and cnt: "int (count_eliminated (grid s')) =
             int (count_eliminated (grid s)) + n -
               (if eliminated (grid s ! sel_row cfg s ! sel_col cfg s) then 1 else 0)"
    and cells: "\<forall>i < ROWS cfg. \<forall>j < COLS cfg.
              grid s' ! i ! j = (grid s ! i ! j)\<lparr>eliminated :=
                 (eliminated (grid s ! i ! j) \<or> (i = sel_row cfg s \<and> j = sel_col cfg s) \<or>
                  within_tolerance32 (color (grid s ! sel_row cfg s ! sel_col cfg s)) tol (color (grid s ! i ! j)))\<rparr>"
    by blast
  have mono: "eliminated (grid s' ! i ! j)" if "i < ROWS cfg" "j < COLS cfg" "eliminated (grid s ! i ! j)" for i j
    using cells that by simp
  have "count_flipped (grid s) (grid s') + count_eliminated (grid s) = count_eliminated (grid s')"
    by (rule count_flipped_pointwise [OF assms wf' mono])
  then have flipped: "n = int (count_flipped (grid s) (grid s')) +
                     (if eliminated (grid s ! sel_row cfg s ! sel_col cfg s) then 1 else 0)"
    using cnt by linarith
  have "eliminated (grid s' ! sel_row cfg s ! sel_col cfg s)"
    using cells in_grid by simp
  with res flipped n1 isel
  show "\<exists>s' n. eliminarSimilares cfg tol s = Some (s', n) \<and>
               eliminated (grid s' ! sel_row cfg s ! sel_col cfg s) \<and>
               n = int (count_flipped (grid s) (grid s')) +
                     (if eliminated (grid s ! sel_row cfg s ! sel_col cfg s) then 1 else 0) \<and>
               1 \<le> n \<and> iSelected s' = - 1"
    by blast
qed

lemma within_tolerance_iff:
  assumes "0 \<le> tol"
  shows "within_tolerance t tol c \<longleftrightarrow>
           (vec_r c - vec_r t)\<^sup>2 + (vec_g c - vec_g t)\<^sup>2 + (vec_b c - vec_b t)\<^sup>2 \<le> 3 * tol\<^sup>2"
proof -
  let ?a = "(vec_r c - vec_r t)\<^sup>2 + (vec_g c - vec_g t)\<^sup>2 + (vec_b c - vec_b t)\<^sup>2"
  have "sqrt ?a / sqrt 3 = sqrt (?a / 3)" by (simp add: real_sqrt_divide)
  moreover have "sqrt (?a / 3) \<le> tol \<longleftrightarrow> ?a / 3 \<le> tol\<^sup>2"
    using assms by (auto intro: real_le_lsqrt dest: sqrt_le_D)
  ultimately show ?thesis by (simp add: within_tolerance_def mult.commute)
qed

text \<open>The binary32 test at the colours of the two examples.\<close>

lemma dMax_eq: "dMax = 14529495 / 8388608"
proof -
  have r0: "float32 (3) = 3"
    using float32_unique [of 22 "3" 12582912] by simp
  have r1: "sqrtf (3) = 14529495 / 8388608"
    using sqrtf_unique [of 23 14529495 "3"] by (simp add: power2_eq_square)
  show ?thesis by (simp add: dMax_def r0 r1)
qed

lemma within32_scenario:
  "within_tolerance32 (Vec3 1 0 0) (1 / 5) (Vec3 1 0 0)"
  "\<not> within_tolerance32 (Vec3 1 0 0) (1 / 5) (Vec3 0 0 1)"
  "\<not> within_tolerance32 (Vec3 1 0 0) (1 / 5) (Vec3 0 1 0)"
  "\<not> within_tolerance32 (Vec3 0 0 1) (1 / 5) (Vec3 0 1 0)"
proof -
  have r0: "float32 (1) = 1"
    using float32_unique [of 23 "1" 8388608] by simp
  have r1: "float32 (1 / 5) = 13421773 / 67108864"
    using float32_unique [of 26 "1 / 5" 13421773] by simp
  have r2: "float32 (2) = 2"
    using float32_unique [of 22 "2" 8388608] by simp
  have r3: "sqrtf (2) = 11863283 / 8388608"
    using sqrtf_unique [of 23 11863283 "2"] by (simp add: power2_eq_square)
  have r4: "float32 (11863283 / 14529495) = 3424635 / 4194304"
    using float32_unique [of 24 "11863283 / 14529495" 13698540] by simp
  show "within_tolerance32 (Vec3 1 0 0) (1 / 5) (Vec3 1 0 0)"
    "\<not> within_tolerance32 (Vec3 1 0 0) (1 / 5) (Vec3 0 0 1)"
    "\<not> within_tolerance32 (Vec3 1 0 0) (1 / 5) (Vec3 0 1 0)"
    "\<not> within_tolerance32 (Vec3 0 0 1) (1 / 5) (Vec3 0 1 0)"
    by (simp_all add: within_tolerance32_def f32_add_def f32_sub_def f32_mul_def f32_div_def dMax_eq float32_zero sqrtf_zero float32_minus
          r0 r1 r2 r3 r4)
qed

lemma within32_boundary:
  "\<not> within_tolerance32 (Vec3 0 0 0) (1 / 5) (Vec3 (1 / 15) (1 / 15) (1 / 3))"
  "within_tolerance32 (Vec3 0 0 0) (1 / 5) (Vec3 (1 / 5) (1 / 5) (1 / 5))"
proof -
  have r0: "float32 (1 / 15) = 8947849 / 134217728"
    using float32_unique [of 27 "1 / 15" 8947849] by simp
  have r1: "float32 (1 / 3) = 11184811 / 33554432"
    using float32_unique [of 25 "1 / 3" 11184811] by simp
  have r2: "float32 (8947849 / 134217728) = 8947849 / 134217728"
    using float32_unique [of 27 "8947849 / 134217728" 8947849] by simp
  have r3: "float32 (80064001726801 / 18014398509481984) = 9544373 / 2147483648"
    using float32_unique [of 31 "80064001726801 / 18014398509481984" 9544373] by simp
  have r4: "float32 (11184811 / 33554432) = 11184811 / 33554432"
    using float32_unique [of 25 "11184811 / 33554432" 11184811] by simp
  have r5: "float32 (125099997105721 / 1125899906842624) = 7456541 / 67108864"
    using float32_unique [of 27 "125099997105721 / 1125899906842624" 14913082] by simp
  have r6: "float32 (9544373 / 1073741824) = 9544373 / 1073741824"
    using float32_unique [of 30 "9544373 / 1073741824" 9544373] by simp
  have r7: "float32 (128849029 / 1073741824) = 16106129 / 134217728"
    using float32_unique [of 27 "128849029 / 1073741824" 16106129] by simp
  have r8: "sqrtf (16106129 / 134217728) = 11623597 / 33554432"
    using sqrtf_unique [of 25 11623597 "16106129 / 134217728"] by (simp add: power2_eq_square)
  have r9: "float32 (11623597 / 58117980) = 6710887 / 33554432"
    using float32_unique [of 26 "11623597 / 58117980" 13421774] by simp
  have r10: "float32 (1 / 5) = 13421773 / 67108864"
    using float32_unique [of 26 "1 / 5" 13421773] by simp
  have r11: "float32 (13421773 / 67108864) = 13421773 / 67108864"
    using float32_unique [of 26 "13421773 / 67108864" 13421773] by simp
  have r12: "float32 (180143990463529 / 4503599627370496) = 10737419 / 268435456"
    using float32_unique [of 28 "180143990463529 / 4503599627370496" 10737419] by simp
  have r13: "float32 (10737419 / 134217728) = 10737419 / 134217728"
    using float32_unique [of 27 "10737419 / 134217728" 10737419] by simp
  have r14: "float32 (32212257 / 268435456) = 1006633 / 8388608"
    using float32_tie [of 27 "32212257 / 268435456" 16106128] by simp
  have r15: "sqrtf (1006633 / 8388608) = 2905899 / 8388608"
    using sqrtf_unique [of 25 11623596 "1006633 / 8388608"] by (simp add: power2_eq_square)
  show "\<not> within_tolerance32 (Vec3 0 0 0) (1 / 5) (Vec3 (1 / 15) (1 / 15) (1 / 3))"
    "within_tolerance32 (Vec3 0 0 0) (1 / 5) (Vec3 (1 / 5) (1 / 5) (1 / 5))"
    by (simp_all add: within_tolerance32_def f32_add_def f32_sub_def f32_mul_def f32_div_def dMax_eq float32_zero sqrtf_zero float32_minus
          r0 r1 r2 r3 r4 r5 r6 r7 r8 r9 r10 r11 r12 r13 r14 r15)
qed

lemma scenario_start_eq:
  "scenario_start =
     \<lparr>grid = [[\<lparr>position = Vec3 50 50 0, dimensions = Vec3 100 100 1, color = Vec3 1 0 0, eliminated = False\<rparr>,
               \<lparr>position = Vec3 150 50 0, dimensions = Vec3 100 100 1, color = Vec3 1 0 0, eliminated = False\<rparr>],
              [\<lparr>position = Vec3 50 150 0, dimensions = Vec3 100 100 1, color = Vec3 0 0 1, eliminated = False\<rparr>,
               \<lparr>position = Vec3 150 150 0, dimensions = Vec3 100 100 1, color = Vec3 0 1 0, eliminated = False\<rparr>]],
      attempts = 0, score = 0, gameOver = False, iSelected = - 1\<rparr>"
proof -
  have u: "[0..<2] = [0, Suc 0]" by (simp add: upt_rec)
  show ?thesis
    unfolding scenario_start_def
    by (simp add: resetGame_closed [OF wf_grid_init] scenario_config_def u fresh_quad_def scenario_rnd_def)
qed

lemma wf_scenario_start: "wf_grid scenario_config (grid scenario_start)"
  unfolding scenario_start_def by (rule wf_grid_reset [OF wf_grid_init])

theorem eliminarSimilares_result_witness:
  "wf_grid scenario_config (grid (scenario_start\<lparr>iSelected := 0\<rparr>)) \<and>
   iSelected scenario_start < 0 \<and>
   eliminarSimilares scenario_config 0.2 scenario_start = Some (scenario_start, 0) \<and>
   0 \<le> iSelected (scenario_start\<lparr>iSelected := 0\<rparr>) \<and>
   iSelected (scenario_start\<lparr>iSelected := 0\<rparr>) < int (ROWS scenario_config * COLS scenario_config) \<and>
   (\<exists>s' n. eliminarSimilares scenario_config 0.2 (scenario_start\<lparr>iSelected := 0\<rparr>) = Some (s', n) \<and>
      eliminated (grid s' ! 0 ! 0) \<and> 1 \<le> n \<and> iSelected s' = - 1)"
proof -
  let ?s = "scenario_start\<lparr>iSelected := 0\<rparr>"
  have wf: "wf_grid scenario_config (grid ?s)" using wf_scenario_start by simp
  have none: "iSelected scenario_start < 0" by (simp add: scenario_start_eq)
  have s12: "0 \<le> iSelected ?s \<and> iSelected ?s < int (ROWS scenario_config * COLS scenario_config)"
    by (simp add: scenario_config_def)
  have rc: "sel_row scenario_config ?s = 0" "sel_col scenario_config ?s = 0"
    by (simp_all add: sel_row_def sel_col_def)
  have "eliminarSimilares scenario_config 0.2 scenario_start = Some (scenario_start, 0)"
    using eliminarSimilares_result [OF wf_scenario_start, of "0.2"] none by blast
  moreover have "\<exists>s' n. eliminarSimilares scenario_config 0.2 ?s = Some (s', n) \<and>
      eliminated (grid s' ! 0 ! 0) \<and> 1 \<le> n \<and> iSelected s' = - 1"
    using eliminarSimilares_result [OF wf, of "0.2"] s12 unfolding rc by blast
  ultimately show ?thesis using wf none s12 by blast
qed

section \<open>The invariant of the game\<close>

lemma game_inv_reset:
  assumes "wf_grid cfg (grid s)"
  shows "game_inv cfg (resetGame cfg rnd s)"
proof -
  let ?s' = "resetGame cfg rnd s"
  have wf': "wf_grid cfg (grid ?s')" by (rule wf_grid_reset [OF assms])
  have fields: "attempts ?s' = 0" "score ?s' = 0" "\<not> gameOver ?s'" "iSelected ?s' = - 1"
    by (simp_all add: resetGame_closed [OF assms])
  have act: "\<not> eliminated (grid ?s' ! i ! j)" if "i < ROWS cfg" "j < COLS cfg" for i j
    using that by (simp add: reset_cell_nth [OF assms] fresh_quad_def)
  have any: "0 < ROWS cfg * COLS cfg \<longrightarrow> anyActiveCell cfg (grid ?s')"
  proof
    assume "0 < ROWS cfg * COLS cfg"
    then have "0 < ROWS cfg" "0 < COLS cfg" by simp_all
    then show "anyActiveCell cfg (grid ?s')" using act [of 0 0] by (auto simp: anyActiveCell_iff)
  qed
  show ?thesis
    unfolding game_inv_def using wf' fields any by auto
qed

lemma index_decode:
  fixes row col :: int
  assumes "0 \<le> col" "col < int C" "0 \<le> row" "row < int R"
  shows "0 \<le> row * int C + col" "row * int C + col < int (R * C)"
    "nat (row * int C + col) div C = nat row" "nat (row * int C + col) mod C = nat col"
proof -
  obtain r c where rc: "row = int r" "col = int c"
    using assms by (metis nonneg_int_cases)
  have c: "c < C" and r: "r < R" using assms rc by simp_all
  have n: "nat (int r * int C + int c) = r * C + c"
    by (metis nat_int of_nat_add of_nat_mult)
  show "0 \<le> row * int C + col" using assms by simp
  have "r * C + c < r * C + C" using c by simp
  also have "\<dots> = Suc r * C" by simp
  also have "\<dots> \<le> R * C" using r by (intro mult_le_mono1) simp
  finally have "r * C + c < R * C" .
  then show "row * int C + col < int (R * C)"
    unfolding rc by (metis of_nat_add of_nat_mult of_nat_less_iff)
  show "nat (row * int C + col) div C = nat row" unfolding rc n using c by simp
  show "nat (row * int C + col) mod C = nat col" unfolding rc n using c by simp
qed

text \<open>The two outcomes of a click.\<close>

lemma mouse_button_callback_cases:
  assumes "mouse_button_callback cfg button action (xpos, ypos) s = Some s'"
  shows "s' = s \<or>
         (\<exists>row col. \<not> gameOver s \<and> 0 \<le> col \<and> col < int (COLS cfg) \<and> 0 \<le> row \<and> row < int (ROWS cfg) \<and>
            \<not> eliminated (grid s ! nat row ! nat col) \<and> s' = s\<lparr>iSelected := row * int (COLS cfg) + col\<rparr>)"
  using assms
  by (auto simp: mouse_button_callback_def split: if_splits option.splits)

lemma game_inv_click:
  assumes "game_inv cfg s" "mouse_button_callback cfg button action (xpos, ypos) s = Some s'"
  shows "game_inv cfg s'"
proof -
  from mouse_button_callback_cases [OF assms(2)]
  show ?thesis
  proof
    assume "s' = s"
    then show ?thesis using assms(1) by simp
  next
    assume "\<exists>row col. \<not> gameOver s \<and> 0 \<le> col \<and> col < int (COLS cfg) \<and> 0 \<le> row \<and> row < int (ROWS cfg) \<and>
            \<not> eliminated (grid s ! nat row ! nat col) \<and> s' = s\<lparr>iSelected := row * int (COLS cfg) + col\<rparr>"
    then obtain row col where go: "\<not> gameOver s"
      and b: "0 \<le> col" "col < int (COLS cfg)" "0 \<le> row" "row < int (ROWS cfg)"
      and e: "\<not> eliminated (grid s ! nat row ! nat col)"
      and s': "s' = s\<lparr>iSelected := row * int (COLS cfg) + col\<rparr>"
      by blast
    note d = index_decode [OF b]
    show ?thesis
      using assms(1) go e d unfolding s' game_inv_def sel_row_def sel_col_def by simp
  qed
qed

text \<open>An iteration of the main loop with a pending selection, in a state the program reaches.\<close>

lemma main_loop_body_resolve:
  assumes inv: "game_inv cfg s" and sel: "0 \<le> iSelected s"
  shows "\<exists>s1 n. eliminarSimilares cfg (COLOR_TOLERANCE cfg) s = Some (s1, n) \<and> 1 \<le> n \<and>
           wf_grid cfg (grid s1) \<and>
           int (count_eliminated (grid s1)) = int (count_eliminated (grid s)) + n \<and>
           main_loop_body cfg s =
             Some (s1\<lparr>attempts := attempts s + 1,
                      score := max 0 (score s + n - (attempts s + 1)),
                      gameOver := \<not> anyActiveCell cfg (grid s1),
                      iSelected := - 1\<rparr>)"
proof -
  have wf: "wf_grid cfg (grid s)" and bound: "iSelected s < int (ROWS cfg * COLS cfg)"
    and active: "\<not> eliminated (grid s ! sel_row cfg s ! sel_col cfg s)" and go: "\<not> gameOver s"
    using inv sel by (auto simp: game_inv_def)
  from eliminarSimilares_pending [OF wf sel bound, of "COLOR_TOLERANCE cfg"]
  obtain s1 n where res: "eliminarSimilares cfg (COLOR_TOLERANCE cfg) s = Some (s1, n)"
    and wf1: "wf_grid cfg (grid s1)" and isel: "iSelected s1 = - 1"
    and same: "attempts s1 = attempts s" "score s1 = score s" "gameOver s1 = gameOver s"
    and n1: "1 \<le> n"
    and cnt: "int (count_eliminated (grid s1)) =
             int (count_eliminated (grid s)) + n -
               (if eliminated (grid s ! sel_row cfg s ! sel_col cfg s) then 1 else 0)"
    by blast
  have body: "main_loop_body cfg s =
             Some (s1\<lparr>attempts := attempts s + 1,
                      score := max 0 (score s + n - (attempts s + 1)),
                      gameOver := \<not> anyActiveCell cfg (grid s1),
                      iSelected := - 1\<rparr>)"
    using sel go res n1 same by (simp add: main_loop_body_def Let_def max_def)
  show ?thesis
    using res n1 wf1 cnt active body by (intro exI [of _ s1] exI [of _ n]) simp
qed

lemma main_loop_body_idle:
  assumes "iSelected s < 0 \<or> gameOver s"
  shows "main_loop_body cfg s = Some s"
  using assms by (auto simp: main_loop_body_def)

lemma game_inv_frame:
  assumes "game_inv cfg s" "main_loop_body cfg s = Some s'"
  shows "game_inv cfg s'"
proof (cases "0 \<le> iSelected s")
  case False
  then have "main_loop_body cfg s = Some s" by (simp add: main_loop_body_idle)
  then show ?thesis using assms by simp
next
  case True
  from main_loop_body_resolve [OF assms(1) True]
  obtain s1 n where n1: "1 \<le> n" and wf1: "wf_grid cfg (grid s1)"
    and cnt: "int (count_eliminated (grid s1)) = int (count_eliminated (grid s)) + n"
    and body: "main_loop_body cfg s =
             Some (s1\<lparr>attempts := attempts s + 1,
                      score := max 0 (score s + n - (attempts s + 1)),
                      gameOver := \<not> anyActiveCell cfg (grid s1),
                      iSelected := - 1\<rparr>)"
    by blast
  have pos: "0 < ROWS cfg * COLS cfg"
    using assms(1) True by (auto simp: game_inv_def)
  have s': "s' = s1\<lparr>attempts := attempts s + 1,
                      score := max 0 (score s + n - (attempts s + 1)),
                      gameOver := \<not> anyActiveCell cfg (grid s1),
                      iSelected := - 1\<rparr>"
    using body assms(2) by simp
  show ?thesis
    using assms(1) n1 wf1 cnt pos unfolding s' game_inv_def by auto
qed

lemma game_inv_key:
  assumes "game_inv cfg s"
  shows "game_inv cfg (key_callback cfg k action rnd s)"
  using assms game_inv_reset [of cfg s rnd]
  by (auto simp: key_callback_def game_inv_def)

lemma game_inv_step:
  assumes "game_inv cfg s" "step cfg e s = Some s'"
  shows "game_inv cfg s'"
  using assms
  by (cases e) (auto intro: game_inv_click game_inv_frame game_inv_key)

lemma reachable_inv: "reachable cfg s \<Longrightarrow> game_inv cfg s"
proof (induction rule: reachable.induct)
  case (start rnd)
  show ?case by (rule game_inv_reset [OF wf_grid_init])
next
  case (next_state s e s')
  then show ?case by (auto intro: game_inv_step)
qed

lemma reachable_run:
  assumes "reachable cfg s" "run cfg es s = Some s'"
  shows "reachable cfg s'"
  using assms
proof (induction es arbitrary: s)
  case Nil
  then show ?case by simp
next
  case (Cons e es)
  then show ?case
    by (auto split: option.splits intro: reachable.next_state)
qed

text \<open>The integer variables stay in the range of a 32-bit \<open>int\<close> for every matrix of fewer than \<open>2 ^ 31\<close> quads.\<close>

lemma reachable_bounds:
  assumes "reachable cfg s"
  shows "- 1 \<le> iSelected s \<and> iSelected s < int (ROWS cfg * COLS cfg) \<and>
         0 \<le> attempts s \<and> attempts s \<le> int (ROWS cfg * COLS cfg) \<and>
         0 \<le> score s \<and> score s \<le> int (ROWS cfg * COLS cfg)"
proof -
  have inv: "game_inv cfg s" by (rule reachable_inv [OF assms])
  then have "count_eliminated (grid s) \<le> ROWS cfg * COLS cfg"
    by (simp add: game_inv_def count_eliminated_le)
  then have "int (count_eliminated (grid s)) \<le> int (ROWS cfg * COLS cfg)"
    by (simp only: of_nat_le_iff)
  then show ?thesis using inv by (auto simp: game_inv_def simp del: of_nat_mult)
qed

text \<open>
  No undefined behaviour in the states the program reaches: with quads of positive size,
  an event whose cursor position converts to \<open>int\<close> always yields a next state.
\<close>

lemma static_cast_int_total:
  assumes "\<bar>v\<bar> < 2 ^ 31"
  shows "\<exists>t. static_cast_int v = Some t"
proof (cases "0 \<le> v")
  case True
  then have "0 \<le> \<lfloor>v\<rfloor>" by simp
  moreover have "\<lfloor>v\<rfloor> < 2 ^ 31" using assms True by (simp add: floor_less_iff)
  ultimately show ?thesis using True by (simp add: static_cast_int_def)
next
  case False
  then have "\<lceil>v\<rceil> \<le> 0" by (simp add: ceiling_le_iff)
  moreover have "- (2 ^ 31) < v" using assms by linarith
  then have "- (2 ^ 31) < \<lceil>v\<rceil>" by (simp add: less_ceiling_iff)
  ultimately show ?thesis using False by (simp add: static_cast_int_def)
qed

lemma mouse_button_callback_total:
  assumes "0 < QUAD_W cfg" "0 < QUAD_H cfg"
    and "\<bar>(xpos - real (QUAD_W cfg div 2)) / real (QUAD_W cfg)\<bar> < 2 ^ 31"
    and "\<bar>(ypos - real (QUAD_H cfg div 2)) / real (QUAD_H cfg)\<bar> < 2 ^ 31"
  shows "\<exists>s'. mouse_button_callback cfg button action (xpos, ypos) s = Some s'"
proof -
  obtain col row where
    "static_cast_int ((xpos - real (QUAD_W cfg div 2)) / real (QUAD_W cfg)) = Some col"
    "static_cast_int ((ypos - real (QUAD_H cfg div 2)) / real (QUAD_H cfg)) = Some row"
    using static_cast_int_total [OF assms(3)] static_cast_int_total [OF assms(4)] by blast
  then show ?thesis using assms(1,2) by (simp add: mouse_button_callback_def)
qed

lemma main_loop_body_total:
  assumes "game_inv cfg s"
  shows "\<exists>s'. main_loop_body cfg s = Some s'"
proof (cases "0 \<le> iSelected s")
  case True
  from main_loop_body_resolve [OF assms True] show ?thesis by blast
next
  case False
  then show ?thesis by (simp add: main_loop_body_idle)
qed

section \<open>The scenario, evaluated\<close>

lemma anyActiveCell_set:
  assumes "wf_grid cfg gr"
  shows "anyActiveCell cfg gr \<longleftrightarrow> (\<exists>row \<in> set gr. \<exists>q \<in> set row. \<not> eliminated q)"
proof
  assume "anyActiveCell cfg gr"
  then obtain i j where "i < ROWS cfg" "j < COLS cfg" "\<not> eliminated (gr ! i ! j)"
    by (auto simp: anyActiveCell_iff)
  moreover have "gr ! i \<in> set gr" "gr ! i ! j \<in> set (gr ! i)"
    using assms calculation by (simp_all add: wf_grid_def list_all_length)
  ultimately show "\<exists>row \<in> set gr. \<exists>q \<in> set row. \<not> eliminated q" by blast
next
  assume "\<exists>row \<in> set gr. \<exists>q \<in> set row. \<not> eliminated q"
  then obtain row q where "row \<in> set gr" "q \<in> set row" "\<not> eliminated q" by blast
  then obtain i j where "i < length gr" "row = gr ! i" "j < length row" "q = row ! j"
    by (metis in_set_conv_nth)
  then show "anyActiveCell cfg gr"
    using assms \<open>\<not> eliminated q\<close> by (auto simp: anyActiveCell_iff wf_grid_def list_all_length)
qed

lemma static_cast_int_of_int:
  assumes "- (2 ^ 31) \<le> n" "n < 2 ^ 31"
  shows "static_cast_int (of_int n) = Some n"
  using assms by (simp add: static_cast_int_def)

lemma scenario_start_grid:
  "scenario_start = \<lparr>grid = scenario_grid False False False False,
                      attempts = 0, score = 0, gameOver = False, iSelected = - 1\<rparr>"
  by (simp add: scenario_start_eq scenario_grid_def)

lemma wf_scenario_grid: "wf_grid scenario_config (scenario_grid e00 e01 e10 e11)"
  by (simp add: wf_grid_def scenario_grid_def scenario_config_def)

lemma scenario_click:
  assumes "\<not> go"
  shows "mouse_button_callback scenario_config GLFW_MOUSE_BUTTON_LEFT GLFW_PRESS (50, 50)
           \<lparr>grid = scenario_grid False e01 e10 e11, attempts = a, score = sc, gameOver = go, iSelected = sel\<rparr> =
         Some \<lparr>grid = scenario_grid False e01 e10 e11, attempts = a, score = sc, gameOver = go, iSelected = 0\<rparr>"
    and "mouse_button_callback scenario_config GLFW_MOUSE_BUTTON_LEFT GLFW_PRESS (50, 150)
           \<lparr>grid = scenario_grid e00 e01 False e11, attempts = a, score = sc, gameOver = go, iSelected = sel\<rparr> =
         Some \<lparr>grid = scenario_grid e00 e01 False e11, attempts = a, score = sc, gameOver = go, iSelected = 2\<rparr>"
    and "mouse_button_callback scenario_config GLFW_MOUSE_BUTTON_LEFT GLFW_PRESS (150, 150)
           \<lparr>grid = scenario_grid e00 e01 e10 False, attempts = a, score = sc, gameOver = go, iSelected = sel\<rparr> =
         Some \<lparr>grid = scenario_grid e00 e01 e10 False, attempts = a, score = sc, gameOver = go, iSelected = 3\<rparr>"
  using assms static_cast_int_of_int [of 0] static_cast_int_of_int [of 1]
  by (simp_all add: mouse_button_callback_def scenario_config_def scenario_grid_def)

lemma scenario_elim_closed:
  assumes "0 \<le> k" "k < 4"
  shows "eliminarSimilares scenario_config tol
           \<lparr>grid = scenario_grid e00 e01 e10 e11, attempts = a, score = sc, gameOver = go, iSelected = k\<rparr> =
         Some (\<lparr>grid = map (map (mark (color (scenario_grid e00 e01 e10 e11 ! (nat k div 2) ! (nat k mod 2))) tol))
                         ((scenario_grid e00 e01 e10 e11)[nat k div 2 := (scenario_grid e00 e01 e10 e11 ! (nat k div 2))
                            [nat k mod 2 := (scenario_grid e00 e01 e10 e11 ! (nat k div 2) ! (nat k mod 2))\<lparr>eliminated := True\<rparr>]]),
                 attempts = a, score = sc, gameOver = go, iSelected = - 1\<rparr>,
               1 + int (count_hits (color (scenario_grid e00 e01 e10 e11 ! (nat k div 2) ! (nat k mod 2))) tol
                         ((scenario_grid e00 e01 e10 e11)[nat k div 2 := (scenario_grid e00 e01 e10 e11 ! (nat k div 2))
                            [nat k mod 2 := (scenario_grid e00 e01 e10 e11 ! (nat k div 2) ! (nat k mod 2))\<lparr>eliminated := True\<rparr>]])))"
proof -
  let ?s = "\<lparr>grid = scenario_grid e00 e01 e10 e11, attempts = a, score = sc, gameOver = go, iSelected = k\<rparr>"
  have wf: "wf_grid scenario_config (grid ?s)" by (simp add: wf_scenario_grid)
  have s1: "0 \<le> iSelected ?s" using assms by simp
  have s2: "iSelected ?s < int (ROWS scenario_config * COLS scenario_config)"
    using assms by (simp add: scenario_config_def)
  have rc: "sel_row scenario_config ?s = nat k div 2" "sel_col scenario_config ?s = nat k mod 2"
    by (simp_all add: sel_row_def sel_col_def scenario_config_def)
  show ?thesis
    using eliminarSimilares_closed [OF wf s1 s2, of tol] unfolding rc by simp
qed

lemma scenario_tolerance: "COLOR_TOLERANCE scenario_config = 0.2"
  by (simp add: scenario_config_def)

lemma scenario_elim:
  "eliminarSimilares scenario_config (COLOR_TOLERANCE scenario_config)
     \<lparr>grid = scenario_grid False False False False, attempts = a, score = sc, gameOver = go, iSelected = 0\<rparr> =
   Some (\<lparr>grid = scenario_grid True True False False, attempts = a, score = sc, gameOver = go, iSelected = - 1\<rparr>, 2)"
  "eliminarSimilares scenario_config (COLOR_TOLERANCE scenario_config)
     \<lparr>grid = scenario_grid True True False False, attempts = a, score = sc, gameOver = go, iSelected = 2\<rparr> =
   Some (\<lparr>grid = scenario_grid True True True False, attempts = a, score = sc, gameOver = go, iSelected = - 1\<rparr>, 1)"
  "eliminarSimilares scenario_config (COLOR_TOLERANCE scenario_config)
     \<lparr>grid = scenario_grid True True True False, attempts = a, score = sc, gameOver = go, iSelected = 3\<rparr> =
   Some (\<lparr>grid = scenario_grid True True True True, attempts = a, score = sc, gameOver = go, iSelected = - 1\<rparr>, 1)"
  unfolding scenario_tolerance
  using scenario_elim_closed [of 0 "0.2" False False False False a sc go]
    scenario_elim_closed [of 2 "0.2" True True False False a sc go]
    scenario_elim_closed [of 3 "0.2" True True True False a sc go]
  by (simp_all add: scenario_grid_def mark_def hit_def count_hits_def within32_scenario)

lemma scenario_anyActive:
  "anyActiveCell scenario_config (scenario_grid e00 e01 e10 e11) \<longleftrightarrow> \<not> (e00 \<and> e01 \<and> e10 \<and> e11)"
  unfolding anyActiveCell_set [OF wf_scenario_grid] by (auto simp: scenario_grid_def)

lemma scenario_frame:
  "main_loop_body scenario_config
     \<lparr>grid = scenario_grid False False False False, attempts = 0, score = 0, gameOver = False, iSelected = 0\<rparr> =
   Some \<lparr>grid = scenario_grid True True False False, attempts = 1, score = 1, gameOver = False, iSelected = - 1\<rparr>"
  "main_loop_body scenario_config
     \<lparr>grid = scenario_grid True True False False, attempts = 1, score = 1, gameOver = False, iSelected = 2\<rparr> =
   Some \<lparr>grid = scenario_grid True True True False, attempts = 2, score = 0, gameOver = False, iSelected = - 1\<rparr>"
  "main_loop_body scenario_config
     \<lparr>grid = scenario_grid True True True False, attempts = 2, score = 0, gameOver = False, iSelected = 3\<rparr> =
   Some \<lparr>grid = scenario_grid True True True True, attempts = 3, score = 0, gameOver = True, iSelected = - 1\<rparr>"
proof -
  show "main_loop_body scenario_config
     \<lparr>grid = scenario_grid False False False False, attempts = 0, score = 0, gameOver = False, iSelected = 0\<rparr> =
   Some \<lparr>grid = scenario_grid True True False False, attempts = 1, score = 1, gameOver = False, iSelected = - 1\<rparr>"
    by (simp add: main_loop_body_def scenario_elim scenario_anyActive)
  show "main_loop_body scenario_config
     \<lparr>grid = scenario_grid True True False False, attempts = 1, score = 1, gameOver = False, iSelected = 2\<rparr> =
   Some \<lparr>grid = scenario_grid True True True False, attempts = 2, score = 0, gameOver = False, iSelected = - 1\<rparr>"
    by (simp add: main_loop_body_def scenario_elim scenario_anyActive)
  show "main_loop_body scenario_config
     \<lparr>grid = scenario_grid True True True False, attempts = 2, score = 0, gameOver = False, iSelected = 3\<rparr> =
   Some \<lparr>grid = scenario_grid True True True True, attempts = 3, score = 0, gameOver = True, iSelected = - 1\<rparr>"
    by (simp add: main_loop_body_def scenario_elim scenario_anyActive)
qed

lemma scenario_run:
  "run scenario_config [click 50 50] scenario_start =
     Some \<lparr>grid = scenario_grid False False False False, attempts = 0, score = 0, gameOver = False, iSelected = 0\<rparr>"
  "run scenario_config [click 50 50, Frame] scenario_start =
     Some \<lparr>grid = scenario_grid True True False False, attempts = 1, score = 1, gameOver = False, iSelected = - 1\<rparr>"
  "run scenario_config [click 50 50, Frame, click 50 150] scenario_start =
     Some \<lparr>grid = scenario_grid True True False False, attempts = 1, score = 1, gameOver = False, iSelected = 2\<rparr>"
  "run scenario_config [click 50 50, Frame, click 50 150, Frame] scenario_start =
     Some \<lparr>grid = scenario_grid True True True False, attempts = 2, score = 0, gameOver = False, iSelected = - 1\<rparr>"
  "run scenario_config [click 50 50, Frame, click 50 150, Frame, click 150 150] scenario_start =
     Some \<lparr>grid = scenario_grid True True True False, attempts = 2, score = 0, gameOver = False, iSelected = 3\<rparr>"
  "run scenario_config [click 50 50, Frame, click 50 150, Frame, click 150 150, Frame] scenario_start =
     Some \<lparr>grid = scenario_grid True True True True, attempts = 3, score = 0, gameOver = True, iSelected = - 1\<rparr>"
  by (simp_all add: click_def scenario_start_grid scenario_click scenario_frame)

section \<open>The tolerance at the boundary\<close>

lemma boundary_start_grid:
  "boundary_start = \<lparr>grid = boundary_grid False False False,
                      attempts = 0, score = 0, gameOver = False, iSelected = - 1\<rparr>"
proof -
  have u: "[0..<3] = [0, Suc 0, 2]" "[0..<Suc 0] = [0]" by (simp_all add: upt_rec)
  show ?thesis
    unfolding boundary_start_def
    by (simp add: resetGame_closed [OF wf_grid_init] boundary_config_def u fresh_quad_def
          boundary_rnd_def boundary_grid_def)
qed

lemma wf_boundary_grid: "wf_grid boundary_config (boundary_grid e0 e1 e2)"
  by (simp add: wf_grid_def boundary_grid_def boundary_config_def)

lemma boundary_click:
  "mouse_button_callback boundary_config GLFW_MOUSE_BUTTON_LEFT GLFW_PRESS (50, 50)
     \<lparr>grid = boundary_grid False e1 e2, attempts = a, score = sc, gameOver = False, iSelected = sel\<rparr> =
   Some \<lparr>grid = boundary_grid False e1 e2, attempts = a, score = sc, gameOver = False, iSelected = 0\<rparr>"
  using static_cast_int_of_int [of 0]
  by (simp add: mouse_button_callback_def boundary_config_def boundary_grid_def)

lemma boundary_elim:
  "eliminarSimilares boundary_config (COLOR_TOLERANCE boundary_config)
     \<lparr>grid = boundary_grid False False False, attempts = a, score = sc, gameOver = go, iSelected = 0\<rparr> =
   Some (\<lparr>grid = boundary_grid True False True, attempts = a, score = sc, gameOver = go, iSelected = - 1\<rparr>, 2)"
proof -
  let ?s = "\<lparr>grid = boundary_grid False False False, attempts = a, score = sc, gameOver = go, iSelected = 0\<rparr>"
  have wf: "wf_grid boundary_config (grid ?s)" by (simp add: wf_boundary_grid)
  have s1: "0 \<le> iSelected ?s" by simp
  have s2: "iSelected ?s < int (ROWS boundary_config * COLS boundary_config)"
    by (simp add: boundary_config_def)
  have rc: "sel_row boundary_config ?s = 0" "sel_col boundary_config ?s = 0"
    by (simp_all add: sel_row_def sel_col_def boundary_config_def)
  have tol: "COLOR_TOLERANCE boundary_config = 1 / 5" by (simp add: boundary_config_def)
  show ?thesis
    using eliminarSimilares_closed [OF wf s1 s2, of "COLOR_TOLERANCE boundary_config"]
    unfolding rc tol
    by (simp add: boundary_grid_def mark_def hit_def count_hits_def within32_boundary)
qed

theorem tolerance_counterexample:
  "run boundary_config [click 50 50] boundary_start =
     Some \<lparr>grid = boundary_grid False False False, attempts = 0, score = 0, gameOver = False, iSelected = 0\<rparr> \<and>
   sel_row boundary_config
     \<lparr>grid = boundary_grid False False False, attempts = 0, score = 0, gameOver = False, iSelected = 0\<rparr> = 0 \<and>
   sel_col boundary_config
     \<lparr>grid = boundary_grid False False False, attempts = 0, score = 0, gameOver = False, iSelected = 0\<rparr> = 0 \<and>
   color (boundary_grid False False False ! 0 ! 0) = Vec3 0 0 0 \<and>
   color (boundary_grid False False False ! 0 ! 1) = Vec3 (17 / 255) (17 / 255) (85 / 255) \<and>
   COLOR_TOLERANCE boundary_config = 0.2 \<and>
   \<not> eliminated (boundary_grid False False False ! 0 ! 1) \<and>
   within_tolerance (Vec3 0 0 0) 0.2 (Vec3 (17 / 255) (17 / 255) (85 / 255)) \<and>
   eliminarSimilares boundary_config (COLOR_TOLERANCE boundary_config)
     \<lparr>grid = boundary_grid False False False, attempts = 0, score = 0, gameOver = False, iSelected = 0\<rparr> =
     Some (\<lparr>grid = boundary_grid True False True, attempts = 0, score = 0, gameOver = False, iSelected = - 1\<rparr>, 2) \<and>
   \<not> eliminated (boundary_grid True False True ! 0 ! 1)"
proof -
  have rn: "run boundary_config [click 50 50] boundary_start =
     Some \<lparr>grid = boundary_grid False False False, attempts = 0, score = 0, gameOver = False, iSelected = 0\<rparr>"
    by (simp add: click_def boundary_start_grid boundary_click)
  have rc: "sel_row boundary_config
     \<lparr>grid = boundary_grid False False False, attempts = 0, score = 0, gameOver = False, iSelected = 0\<rparr> = 0"
    "sel_col boundary_config
     \<lparr>grid = boundary_grid False False False, attempts = 0, score = 0, gameOver = False, iSelected = 0\<rparr> = 0"
    by (simp_all add: sel_row_def sel_col_def boundary_config_def)
  have cols: "color (boundary_grid False False False ! 0 ! 0) = Vec3 0 0 0"
    "color (boundary_grid False False False ! 0 ! 1) = Vec3 (17 / 255) (17 / 255) (85 / 255)"
    "\<not> eliminated (boundary_grid False False False ! 0 ! 1)"
    "\<not> eliminated (boundary_grid True False True ! 0 ! 1)"
    by (simp_all add: boundary_grid_def)
  have tol: "COLOR_TOLERANCE boundary_config = 0.2" by (simp add: boundary_config_def)
  have wt: "within_tolerance (Vec3 0 0 0) 0.2 (Vec3 (17 / 255) (17 / 255) (85 / 255))"
    by (simp add: within_tolerance_iff power2_eq_square)
  from rn rc cols tol wt boundary_elim show ?thesis by blast
qed

theorem eliminarSimilares_tolerance32_witness:
  "wf_grid boundary_config
     (grid \<lparr>grid = boundary_grid False False False, attempts = 0, score = 0, gameOver = False, iSelected = 0\<rparr>) \<and>
   0 \<le> iSelected
     \<lparr>grid = boundary_grid False False False, attempts = 0, score = 0, gameOver = False, iSelected = 0\<rparr> \<and>
   iSelected
     \<lparr>grid = boundary_grid False False False, attempts = 0, score = 0, gameOver = False, iSelected = 0\<rparr>
     < int (ROWS boundary_config * COLS boundary_config) \<and>
   (\<exists>s' n. eliminarSimilares boundary_config 0.2
      \<lparr>grid = boundary_grid False False False, attempts = 0, score = 0, gameOver = False, iSelected = 0\<rparr> =
        Some (s', n) \<and>
      \<not> eliminated (grid s' ! 0 ! 1) \<and> eliminated (grid s' ! 0 ! 2))"
proof -
  let ?s = "\<lparr>grid = boundary_grid False False False, attempts = 0, score = 0, gameOver = False, iSelected = 0\<rparr>"
  have wf: "wf_grid boundary_config (grid ?s)" by (simp add: wf_boundary_grid)
  have s1: "0 \<le> iSelected ?s" by simp
  have s2: "iSelected ?s < int (ROWS boundary_config * COLS boundary_config)"
    by (simp add: boundary_config_def)
  have rc: "sel_row boundary_config ?s = 0" "sel_col boundary_config ?s = 0"
    by (simp_all add: sel_row_def sel_col_def boundary_config_def)
  from eliminarSimilares_tolerance32 [OF wf s1 s2, of "0.2"]
  obtain s' n where res: "eliminarSimilares boundary_config 0.2 ?s = Some (s', n)"
    and cells: "\<forall>i < ROWS boundary_config. \<forall>j < COLS boundary_config.
        (i, j) \<noteq> (sel_row boundary_config ?s, sel_col boundary_config ?s) \<longrightarrow>
          ((\<not> eliminated (grid ?s ! i ! j) \<and> eliminated (grid s' ! i ! j)) \<longleftrightarrow>
           (\<not> eliminated (grid ?s ! i ! j) \<and>
            within_tolerance32 (color (grid ?s ! sel_row boundary_config ?s ! sel_col boundary_config ?s)) 0.2
              (color (grid ?s ! i ! j))))"
    by blast
  have a: "\<not> eliminated (grid s' ! 0 ! 1)"
    using cells [unfolded rc, rule_format, of 0 1]
    by (simp add: boundary_config_def boundary_grid_def within32_boundary)
  have b: "eliminated (grid s' ! 0 ! 2)"
    using cells [unfolded rc, rule_format, of 0 2]
    by (simp add: boundary_config_def boundary_grid_def within32_boundary)
  show ?thesis using wf s1 s2 res a b by blast
qed

section \<open>Clicks\<close>

lemma cast_left_half:
  assumes w: "0 < w" and lh: "left_half w c v" and c: "c \<le> 2 ^ 31"
  shows "static_cast_int ((v - real (w div 2)) / real w) = Some (int (c - 1))"
proof -
  let ?u = "(v - real (w div 2)) / real w"
  have half: "real (w div 2) \<le> real w / 2"
    using of_nat_div_le_of_nat [of w 2, where ?'a = real] by simp
  have lo: "real c * real w \<le> v" and hi: "v < real c * real w + real (w div 2)"
    using lh by (simp_all add: left_half_def)
  have rw: "0 < real w" using w by simp
  have range: "- (2 ^ 31) \<le> int (c - 1)" "int (c - 1) < 2 ^ 31"
  proof -
    show "- (2 ^ 31) \<le> int (c - 1)" by (rule order_trans [of _ 0]) simp_all
    have "c - 1 < 2 ^ 31 \<or> c = 0" using c by linarith
    then have "c - 1 < (2::nat) ^ 31" by auto
    then show "int (c - 1) < 2 ^ 31"
      by (metis of_nat_less_iff of_nat_numeral of_nat_power)
  qed
  show ?thesis
  proof (cases "c = 0")
    case True
    have neg: "?u < 0" using hi rw True by (simp add: divide_less_0_iff)
    have "- real w < v - real (w div 2)" using lo half rw True by simp
    then have gt: "- 1 < ?u" using rw by (simp add: pos_less_divide_eq)
    have "\<lceil>?u\<rceil> = 0" using neg gt by (intro ceiling_unique) simp_all
    then show ?thesis using neg True by (simp add: static_cast_int_def)
  next
    case False
    then have c1: "real (c - 1) = real c - 1" by (simp add: of_nat_diff)
    have "(real c - 1) * real w \<le> v - real (w div 2)"
      using lo half rw by (simp add: algebra_simps)
    then have ge: "real c - 1 \<le> ?u" using rw by (simp add: pos_le_divide_eq)
    have "v - real (w div 2) < real c * real w" using hi by simp
    then have lt: "?u < real c" using rw by (simp add: pos_divide_less_eq)
    have "1 \<le> real c" using False by simp
    then have nonneg: "0 \<le> ?u" using ge by linarith
    have "\<lfloor>?u\<rfloor> = int (c - 1)"
      using ge lt c1 by (intro floor_unique) simp_all
    then show ?thesis using nonneg range by (simp add: static_cast_int_def)
  qed
qed

lemma mouse_button_callback_eq:
  assumes "0 < QUAD_W cfg" "0 < QUAD_H cfg"
    and "static_cast_int ((xpos - real (QUAD_W cfg div 2)) / real (QUAD_W cfg)) = Some col"
    and "static_cast_int ((ypos - real (QUAD_H cfg div 2)) / real (QUAD_H cfg)) = Some row"
  shows "mouse_button_callback cfg GLFW_MOUSE_BUTTON_LEFT GLFW_PRESS (xpos, ypos) s =
           Some (if col < 0 \<or> int (COLS cfg) \<le> col \<or> row < 0 \<or> int (ROWS cfg) \<le> row \<or>
                    gameOver s \<or> eliminated (grid s ! nat row ! nat col)
                 then s else s\<lparr>iSelected := row * int (COLS cfg) + col\<rparr>)"
  using assms by (auto simp: mouse_button_callback_def)

text \<open>
  C4: a left click computes the column and the row by subtracting half the quad width and
  height (\<open>QUAD_W / 2\<close>, \<open>QUAD_H / 2\<close>) from the cursor position, dividing by the quad
  width and height and converting to \<open>int\<close>. When the cell lies outside the matrix, the game
  is over or the quad is eliminated, the state stays as it is; otherwise \<open>iSelected\<close> becomes
  \<open>row * COLS + col\<close> and nothing else changes.
\<close>

theorem click_selects:
  assumes "0 < QUAD_W cfg" "0 < QUAD_H cfg"
    and "static_cast_int ((xpos - real (QUAD_W cfg div 2)) / real (QUAD_W cfg)) = Some col"
    and "static_cast_int ((ypos - real (QUAD_H cfg div 2)) / real (QUAD_H cfg)) = Some row"
  shows "mouse_button_callback cfg GLFW_MOUSE_BUTTON_LEFT GLFW_PRESS (xpos, ypos) s =
           Some (if col < 0 \<or> int (COLS cfg) \<le> col \<or> row < 0 \<or> int (ROWS cfg) \<le> row \<or>
                    gameOver s \<or> eliminated (grid s ! nat row ! nat col)
                 then s else s\<lparr>iSelected := row * int (COLS cfg) + col\<rparr>)"
  by (rule mouse_button_callback_eq [OF assms])

theorem click_selects_witness:
  "0 < QUAD_W scenario_config \<and> 0 < QUAD_H scenario_config \<and>
   static_cast_int ((50 - real (QUAD_W scenario_config div 2)) / real (QUAD_W scenario_config)) = Some 0 \<and>
   static_cast_int ((150 - real (QUAD_H scenario_config div 2)) / real (QUAD_H scenario_config)) = Some 1 \<and>
   static_cast_int ((250 - real (QUAD_H scenario_config div 2)) / real (QUAD_H scenario_config)) = Some 2 \<and>
   mouse_button_callback scenario_config GLFW_MOUSE_BUTTON_LEFT GLFW_PRESS (50, 150) scenario_start =
     Some (scenario_start\<lparr>iSelected := 2\<rparr>) \<and>
   mouse_button_callback scenario_config GLFW_MOUSE_BUTTON_LEFT GLFW_PRESS (50, 250) scenario_start =
     Some scenario_start"
proof -
  have w: "0 < QUAD_W scenario_config" and h: "0 < QUAD_H scenario_config"
    by (simp_all add: scenario_config_def)
  have c0: "static_cast_int ((50 - real (QUAD_W scenario_config div 2)) / real (QUAD_W scenario_config)) = Some 0"
    using static_cast_int_of_int [of 0] by (simp add: scenario_config_def)
  have r1: "static_cast_int ((150 - real (QUAD_H scenario_config div 2)) / real (QUAD_H scenario_config)) = Some 1"
    using static_cast_int_of_int [of 1] by (simp add: scenario_config_def)
  have r2: "static_cast_int ((250 - real (QUAD_H scenario_config div 2)) / real (QUAD_H scenario_config)) = Some 2"
    using static_cast_int_of_int [of 2] by (simp add: scenario_config_def)
  have a: "mouse_button_callback scenario_config GLFW_MOUSE_BUTTON_LEFT GLFW_PRESS (50, 150) scenario_start =
     Some (scenario_start\<lparr>iSelected := 2\<rparr>)"
    using click_selects [OF w h c0 r1, of scenario_start]
    by (simp add: scenario_start_grid scenario_grid_def scenario_config_def)
  have b: "mouse_button_callback scenario_config GLFW_MOUSE_BUTTON_LEFT GLFW_PRESS (50, 250) scenario_start =
     Some scenario_start"
    using click_selects [OF w h c0 r2, of scenario_start]
    by (simp add: scenario_config_def)
  show ?thesis using w h c0 r1 r2 a b by blast
qed

lemma left_half_in_rectangle:
  assumes "left_half w n v"
  shows "\<bar>v - (real n * real w + real w / 2)\<bar> \<le> real w / 2"
proof -
  have "real (w div 2) \<le> real w / 2"
    using of_nat_div_le_of_nat [of w 2, where ?'a = real] by simp
  then show ?thesis using assms by (simp add: left_half_def abs_le_iff)
qed

text \<open>
  C10: the callback does not select the quad whose rectangle holds the click. A click in the
  left half of column \<open>c\<close>, which lies in the rectangle drawn around the centre
  \<open>c * QUAD_W + QUAD_W / 2\<close> of that column, selects column \<open>c - 1\<close>, and a click in the
  left half of column 0 selects column 0, since the conversion truncates towards zero
  (\<open>c - 1\<close> is a subtraction of natural numbers: \<open>0 - 1 = 0\<close>). The same holds for rows.
\<close>

theorem click_left_half:
  assumes "0 < QUAD_W cfg" "0 < QUAD_H cfg" "COLS cfg < 2 ^ 31" "ROWS cfg < 2 ^ 31" "\<not> gameOver s"
  shows "(left_half (QUAD_W cfg) c xpos \<and> c - 1 < COLS cfg \<and>
          static_cast_int ((ypos - real (QUAD_H cfg div 2)) / real (QUAD_H cfg)) = Some row \<and>
          0 \<le> row \<and> row < int (ROWS cfg) \<and> \<not> eliminated (grid s ! nat row ! (c - 1)) \<longrightarrow>
          mouse_button_callback cfg GLFW_MOUSE_BUTTON_LEFT GLFW_PRESS (xpos, ypos) s =
            Some (s\<lparr>iSelected := row * int (COLS cfg) + int (c - 1)\<rparr>)) \<and>
         (left_half (QUAD_H cfg) r ypos \<and> r - 1 < ROWS cfg \<and>
          static_cast_int ((xpos - real (QUAD_W cfg div 2)) / real (QUAD_W cfg)) = Some col \<and>
          0 \<le> col \<and> col < int (COLS cfg) \<and> \<not> eliminated (grid s ! (r - 1) ! nat col) \<longrightarrow>
          mouse_button_callback cfg GLFW_MOUSE_BUTTON_LEFT GLFW_PRESS (xpos, ypos) s =
            Some (s\<lparr>iSelected := int (r - 1) * int (COLS cfg) + col\<rparr>)) \<and>
         (left_half (QUAD_W cfg) c xpos \<longrightarrow>
            \<bar>xpos - (real c * real (QUAD_W cfg) + real (QUAD_W cfg) / 2)\<bar> \<le> real (QUAD_W cfg) / 2) \<and>
         (left_half (QUAD_H cfg) r ypos \<longrightarrow>
            \<bar>ypos - (real r * real (QUAD_H cfg) + real (QUAD_H cfg) / 2)\<bar> \<le> real (QUAD_H cfg) / 2)"
proof (intro conjI impI)
  assume "left_half (QUAD_W cfg) c xpos"
  then show "\<bar>xpos - (real c * real (QUAD_W cfg) + real (QUAD_W cfg) / 2)\<bar> \<le> real (QUAD_W cfg) / 2"
    by (rule left_half_in_rectangle)
next
  assume "left_half (QUAD_H cfg) r ypos"
  then show "\<bar>ypos - (real r * real (QUAD_H cfg) + real (QUAD_H cfg) / 2)\<bar> \<le> real (QUAD_H cfg) / 2"
    by (rule left_half_in_rectangle)
next
  assume a: "left_half (QUAD_W cfg) c xpos \<and> c - 1 < COLS cfg \<and>
          static_cast_int ((ypos - real (QUAD_H cfg div 2)) / real (QUAD_H cfg)) = Some row \<and>
          0 \<le> row \<and> row < int (ROWS cfg) \<and> \<not> eliminated (grid s ! nat row ! (c - 1))"
  then have "c \<le> COLS cfg" by linarith
  then have "c \<le> 2 ^ 31" using assms(3) by linarith
  then have col: "static_cast_int ((xpos - real (QUAD_W cfg div 2)) / real (QUAD_W cfg)) = Some (int (c - 1))"
    using a assms(1) by (intro cast_left_half) simp_all
  show "mouse_button_callback cfg GLFW_MOUSE_BUTTON_LEFT GLFW_PRESS (xpos, ypos) s =
            Some (s\<lparr>iSelected := row * int (COLS cfg) + int (c - 1)\<rparr>)"
    using mouse_button_callback_eq [OF assms(1,2) col, of ypos row s] a assms(5) by simp
next
  assume a: "left_half (QUAD_H cfg) r ypos \<and> r - 1 < ROWS cfg \<and>
          static_cast_int ((xpos - real (QUAD_W cfg div 2)) / real (QUAD_W cfg)) = Some col \<and>
          0 \<le> col \<and> col < int (COLS cfg) \<and> \<not> eliminated (grid s ! (r - 1) ! nat col)"
  then have "r \<le> ROWS cfg" by linarith
  then have "r \<le> 2 ^ 31" using assms(4) by linarith
  then have row: "static_cast_int ((ypos - real (QUAD_H cfg div 2)) / real (QUAD_H cfg)) = Some (int (r - 1))"
    using a assms(2) by (intro cast_left_half) simp_all
  show "mouse_button_callback cfg GLFW_MOUSE_BUTTON_LEFT GLFW_PRESS (xpos, ypos) s =
            Some (s\<lparr>iSelected := int (r - 1) * int (COLS cfg) + col\<rparr>)"
    using mouse_button_callback_eq [OF assms(1,2) _ row, of xpos col s] a assms(5) by simp
qed

theorem click_left_half_witness:
  "0 < QUAD_W scenario_config \<and> 0 < QUAD_H scenario_config \<and>
   COLS scenario_config < 2 ^ 31 \<and> ROWS scenario_config < 2 ^ 31 \<and> \<not> gameOver scenario_start \<and>
   left_half (QUAD_W scenario_config) 1 120 \<and> left_half (QUAD_H scenario_config) 1 130 \<and>
   left_half (QUAD_W scenario_config) 0 20 \<and>
   static_cast_int ((130 - real (QUAD_H scenario_config div 2)) / real (QUAD_H scenario_config)) = Some 0 \<and>
   static_cast_int ((120 - real (QUAD_W scenario_config div 2)) / real (QUAD_W scenario_config)) = Some 0 \<and>
   mouse_button_callback scenario_config GLFW_MOUSE_BUTTON_LEFT GLFW_PRESS (120, 130) scenario_start =
     Some (scenario_start\<lparr>iSelected := 0\<rparr>) \<and>
   mouse_button_callback scenario_config GLFW_MOUSE_BUTTON_LEFT GLFW_PRESS (20, 130) scenario_start =
     Some (scenario_start\<lparr>iSelected := 0\<rparr>)"
proof -
  have w: "0 < QUAD_W scenario_config" and h: "0 < QUAD_H scenario_config"
    and c: "COLS scenario_config < 2 ^ 31" and r: "ROWS scenario_config < 2 ^ 31"
    by (simp_all add: scenario_config_def)
  have go: "\<not> gameOver scenario_start" by (simp add: scenario_start_grid)
  have lx: "left_half (QUAD_W scenario_config) 1 120" and ly: "left_half (QUAD_H scenario_config) 1 130"
    and lx0: "left_half (QUAD_W scenario_config) 0 20"
    by (simp_all add: left_half_def scenario_config_def)
  have cy: "static_cast_int ((130 - real (QUAD_H scenario_config div 2)) / real (QUAD_H scenario_config)) = Some 0"
    by (simp add: static_cast_int_def scenario_config_def)
  have cx: "static_cast_int ((120 - real (QUAD_W scenario_config div 2)) / real (QUAD_W scenario_config)) = Some 0"
    by (simp add: static_cast_int_def scenario_config_def)
  have e: "\<not> eliminated (grid scenario_start ! 0 ! 0)"
    by (simp add: scenario_start_grid scenario_grid_def)
  have a: "mouse_button_callback scenario_config GLFW_MOUSE_BUTTON_LEFT GLFW_PRESS (120, 130) scenario_start =
     Some (scenario_start\<lparr>iSelected := 0\<rparr>)"
    using click_left_half [OF w h c r go, of 1 120 130 0 1 0] lx ly cx cy e
    by (simp add: scenario_config_def)
  have b: "mouse_button_callback scenario_config GLFW_MOUSE_BUTTON_LEFT GLFW_PRESS (20, 130) scenario_start =
     Some (scenario_start\<lparr>iSelected := 0\<rparr>)"
    using click_left_half [OF w h c r go, of 0 20 130 0 1 0] lx0 cy e
    by (simp add: scenario_config_def)
  show ?thesis using w h c r go lx ly lx0 cy cx a b by blast
qed

section \<open>Runs of events\<close>

lemma main_loop_body_cases:
  assumes "main_loop_body cfg s = Some s'"
  shows "s' = s \<or>
         (0 \<le> iSelected s \<and> \<not> gameOver s \<and>
          (\<exists>s1 n. eliminarSimilares cfg (COLOR_TOLERANCE cfg) s = Some (s1, n) \<and> grid s' = grid s1))"
  using assms
  by (auto simp: main_loop_body_def Let_def split: if_splits option.splits)

lemma key_callback_no_reset:
  assumes "\<not> is_reset (KeyEvent k action rnd)"
  shows "key_callback cfg k action rnd s = s"
  using assms by (auto simp: key_callback_def)

lemma step_monotone:
  assumes wf: "wf_grid cfg (grid s)" and st: "step cfg e s = Some s'" and nr: "\<not> is_reset e"
  shows "wf_grid cfg (grid s') \<and>
         (\<forall>i < ROWS cfg. \<forall>j < COLS cfg. eliminated (grid s ! i ! j) \<longrightarrow> eliminated (grid s' ! i ! j))"
proof (cases e)
  case (MouseButton button action xpos ypos)
  then have "grid s' = grid s"
    using st mouse_button_callback_cases [of cfg button action xpos ypos s s'] by auto
  then show ?thesis using wf by simp
next
  case (KeyEvent k action rnd)
  then have "s' = s" using st nr key_callback_no_reset [of k action rnd cfg s] by simp
  then show ?thesis using wf by simp
next
  case Frame
  then have body: "main_loop_body cfg s = Some s'" using st by simp
  from main_loop_body_cases [OF body] show ?thesis
  proof
    assume "s' = s"
    then show ?thesis using wf by simp
  next
    assume "0 \<le> iSelected s \<and> \<not> gameOver s \<and>
          (\<exists>s1 n. eliminarSimilares cfg (COLOR_TOLERANCE cfg) s = Some (s1, n) \<and> grid s' = grid s1)"
    then obtain s1 n where sel: "0 \<le> iSelected s"
      and res: "eliminarSimilares cfg (COLOR_TOLERANCE cfg) s = Some (s1, n)" and g: "grid s' = grid s1"
      by blast
    have bound: "iSelected s < int (ROWS cfg * COLS cfg)" by (rule elim_Some_bounds [OF sel res])
    from eliminarSimilares_pending [OF wf sel bound, of "COLOR_TOLERANCE cfg"] res
    have "wf_grid cfg (grid s1)"
      and "\<forall>i < ROWS cfg. \<forall>j < COLS cfg.
              grid s1 ! i ! j = (grid s ! i ! j)\<lparr>eliminated :=
                 (eliminated (grid s ! i ! j) \<or> (i = sel_row cfg s \<and> j = sel_col cfg s) \<or>
                  within_tolerance32 (color (grid s ! sel_row cfg s ! sel_col cfg s)) (COLOR_TOLERANCE cfg)
                    (color (grid s ! i ! j)))\<rparr>"
      by auto
    then show ?thesis unfolding g by simp
  qed
qed

lemma run_monotone:
  assumes "wf_grid cfg (grid s)" "run cfg es s = Some s'" "\<forall>e \<in> set es. \<not> is_reset e"
  shows "wf_grid cfg (grid s') \<and>
         (\<forall>i < ROWS cfg. \<forall>j < COLS cfg. eliminated (grid s ! i ! j) \<longrightarrow> eliminated (grid s' ! i ! j))"
  using assms
proof (induction es arbitrary: s)
  case Nil
  then show ?case by simp
next
  case (Cons e es)
  from Cons.prems(2) obtain s1 where s1: "step cfg e s = Some s1" and rest: "run cfg es s1 = Some s'"
    by (auto split: option.splits)
  have m1: "wf_grid cfg (grid s1) \<and>
         (\<forall>i < ROWS cfg. \<forall>j < COLS cfg. eliminated (grid s ! i ! j) \<longrightarrow> eliminated (grid s1 ! i ! j))"
    using step_monotone [OF Cons.prems(1) s1] Cons.prems(3) by simp
  then have m2: "wf_grid cfg (grid s') \<and>
         (\<forall>i < ROWS cfg. \<forall>j < COLS cfg. eliminated (grid s1 ! i ! j) \<longrightarrow> eliminated (grid s' ! i ! j))"
    using Cons.IH [of s1] rest Cons.prems(3) by simp
  from m1 m2 show ?case by blast
qed

text \<open>
  C6: over any sequence of events without a restart, a quad that is eliminated stays
  eliminated; \<open>resetGame\<close> makes it active again.
\<close>

theorem eliminated_monotonic:
  assumes "wf_grid cfg (grid s)" "run cfg es s = Some s'" "\<forall>e \<in> set es. \<not> is_reset e"
    and "i < ROWS cfg" "j < COLS cfg" "eliminated (grid s ! i ! j)"
  shows "eliminated (grid s' ! i ! j) \<and> \<not> eliminated (grid (resetGame cfg rnd s') ! i ! j)"
proof -
  from run_monotone [OF assms(1-3)]
  have wf': "wf_grid cfg (grid s')" and "eliminated (grid s' ! i ! j)"
    using assms(4-6) by auto
  moreover have "\<not> eliminated (grid (resetGame cfg rnd s') ! i ! j)"
    using assms(4,5) by (simp add: reset_cell_nth [OF wf'] fresh_quad_def)
  ultimately show ?thesis by simp
qed

theorem eliminated_monotonic_witness:
  "wf_grid scenario_config
     (grid \<lparr>grid = scenario_grid True True False False, attempts = 1, score = 1, gameOver = False, iSelected = - 1\<rparr>) \<and>
   run scenario_config [click 50 150, Frame]
     \<lparr>grid = scenario_grid True True False False, attempts = 1, score = 1, gameOver = False, iSelected = - 1\<rparr> =
     Some \<lparr>grid = scenario_grid True True True False, attempts = 2, score = 0, gameOver = False, iSelected = - 1\<rparr> \<and>
   \<not> is_reset (click 50 150) \<and> \<not> is_reset Frame \<and>
   (0::nat) < ROWS scenario_config \<and> (1::nat) < COLS scenario_config \<and>
   eliminated (grid \<lparr>grid = scenario_grid True True False False, attempts = 1, score = 1, gameOver = False,
                      iSelected = - 1\<rparr> ! 0 ! 1) \<and>
   eliminated (grid \<lparr>grid = scenario_grid True True True False, attempts = 2, score = 0, gameOver = False,
                      iSelected = - 1\<rparr> ! 0 ! 1) \<and>
   \<not> eliminated (grid (resetGame scenario_config scenario_rnd
       \<lparr>grid = scenario_grid True True True False, attempts = 2, score = 0, gameOver = False, iSelected = - 1\<rparr>) ! 0 ! 1)"
proof -
  let ?s = "\<lparr>grid = scenario_grid True True False False, attempts = 1, score = 1, gameOver = False, iSelected = - 1\<rparr>"
  let ?s' = "\<lparr>grid = scenario_grid True True True False, attempts = 2, score = 0, gameOver = False, iSelected = - 1\<rparr>"
  have wf: "wf_grid scenario_config (grid ?s)" by (simp add: wf_scenario_grid)
  have rn: "run scenario_config [click 50 150, Frame] ?s = Some ?s'"
    by (simp add: click_def scenario_click scenario_frame)
  have nr: "\<forall>e \<in> set [click 50 150, Frame]. \<not> is_reset e" by (simp add: click_def)
  have i: "(0::nat) < ROWS scenario_config" and j: "(1::nat) < COLS scenario_config"
    by (simp_all add: scenario_config_def)
  have e: "eliminated (grid ?s ! 0 ! 1)" by (simp add: scenario_grid_def)
  have nr': "\<not> is_reset (click 50 150) \<and> \<not> is_reset Frame" using nr by simp
  show ?thesis
    using wf rn nr' i j e eliminated_monotonic [OF wf rn nr i j e, of scenario_rnd] by blast
qed

lemma resolves_iff:
  assumes "game_inv cfg s"
  shows "resolves cfg e s \<longleftrightarrow> e = Frame \<and> 0 \<le> iSelected s"
proof (cases "0 \<le> iSelected s")
  case False
  then show ?thesis by (simp add: resolves_def)
next
  case True
  then have go: "\<not> gameOver s" using assms by (auto simp: game_inv_def)
  from main_loop_body_resolve [OF assms True]
  obtain s1 n where "eliminarSimilares cfg (COLOR_TOLERANCE cfg) s = Some (s1, n)" "1 \<le> n"
    by blast
  then show ?thesis using True go by (simp add: resolves_def)
qed

lemma step_attempts:
  assumes inv: "game_inv cfg s" and st: "step cfg e s = Some s'"
  shows "attempts s' = (if is_reset e then 0 else if resolves cfg e s then attempts s + 1 else attempts s)"
proof (cases e)
  case (MouseButton button action xpos ypos)
  then have "attempts s' = attempts s"
    using st mouse_button_callback_cases [of cfg button action xpos ypos s s'] by auto
  then show ?thesis using MouseButton by (simp add: resolves_def)
next
  case (KeyEvent k action rnd)
  have wf: "wf_grid cfg (grid s)" using inv by (simp add: game_inv_def)
  show ?thesis
  proof (cases "is_reset e")
    case True
    then have "s' = resetGame cfg rnd s" using st KeyEvent by (auto simp: key_callback_def)
    then show ?thesis using True by (simp add: resetGame_closed [OF wf])
  next
    case False
    then have "s' = s" using st KeyEvent key_callback_no_reset [of k action rnd cfg s] by simp
    then show ?thesis using False KeyEvent by (auto simp: resolves_def)
  qed
next
  case Frame
  show ?thesis
  proof (cases "0 \<le> iSelected s")
    case False
    then have "main_loop_body cfg s = Some s" by (simp add: main_loop_body_idle)
    then show ?thesis using st Frame False by (simp add: resolves_def)
  next
    case True
    from main_loop_body_resolve [OF inv True] st Frame
    have "attempts s' = attempts s + 1" by auto
    then show ?thesis using Frame True by (simp add: resolves_iff [OF inv])
  qed
qed

lemma attempts_successes:
  assumes "game_inv cfg s" "attempts s = int k" "run cfg es s = Some s'"
  shows "attempts s' = int (successes cfg k es s)"
  using assms
proof (induction es arbitrary: s k)
  case Nil
  then show ?case by simp
next
  case (Cons e es)
  from Cons.prems(3) obtain s1 where s1: "step cfg e s = Some s1" and rest: "run cfg es s1 = Some s'"
    by (auto split: option.splits)
  let ?k = "if is_reset e then 0 else if resolves cfg e s then Suc k else k"
  have inv1: "game_inv cfg s1" by (rule game_inv_step [OF Cons.prems(1) s1])
  have "attempts s1 = int ?k"
    using step_attempts [OF Cons.prems(1) s1] Cons.prems(2) by simp
  from Cons.IH [OF inv1 this rest] show ?case using s1 by simp
qed

lemma start_inv: "game_inv cfg (resetGame cfg rnd (init_game cfg))"
  by (rule game_inv_reset [OF wf_grid_init])

lemma run_inv:
  assumes "game_inv cfg s" "run cfg es s = Some s'"
  shows "game_inv cfg s'"
  using assms
proof (induction es arbitrary: s)
  case Nil
  then show ?case by simp
next
  case (Cons e es)
  then show ?case by (auto split: option.splits intro: game_inv_step)
qed

text \<open>
  C2: in the state after any run of events from the start of the game, \<open>attempts\<close> is the
  number of successful resolutions since the last restart and the score is not negative.
  Every resolution from there removes \<open>r \<ge> 1\<close> quads, and leaves \<open>attempts\<close> one higher and
  the score at \<open>max 0 (score + r - attempts)\<close>, with the new value of \<open>attempts\<close>.
\<close>

theorem score_formula:
  assumes "run cfg es (resetGame cfg rnd (init_game cfg)) = Some s"
  shows "attempts s = int (successes cfg 0 es (resetGame cfg rnd (init_game cfg))) \<and> 0 \<le> score s \<and>
         (0 \<le> iSelected s \<and> \<not> gameOver s \<longrightarrow>
            (\<exists>s1 r s'. eliminarSimilares cfg (COLOR_TOLERANCE cfg) s = Some (s1, r) \<and> 1 \<le> r \<and>
               step cfg Frame s = Some s' \<and> attempts s' = attempts s + 1 \<and>
               score s' = max 0 (score s + r - attempts s') \<and> 0 \<le> score s'))"
proof -
  let ?s0 = "resetGame cfg rnd (init_game cfg)"
  have inv0: "game_inv cfg ?s0" by (rule start_inv)
  have a0: "attempts ?s0 = int 0" by (simp add: resetGame_closed [OF wf_grid_init])
  have inv: "game_inv cfg s" by (rule run_inv [OF inv0 assms])
  have att: "attempts s = int (successes cfg 0 es ?s0)"
    by (rule attempts_successes [OF inv0 a0 assms])
  have sc: "0 \<le> score s" using inv by (simp add: game_inv_def)
  have res: "\<exists>s1 r s'. eliminarSimilares cfg (COLOR_TOLERANCE cfg) s = Some (s1, r) \<and> 1 \<le> r \<and>
               step cfg Frame s = Some s' \<and> attempts s' = attempts s + 1 \<and>
               score s' = max 0 (score s + r - attempts s') \<and> 0 \<le> score s'"
    if "0 \<le> iSelected s"
  proof -
    from main_loop_body_resolve [OF inv that]
    obtain s1 n where e: "eliminarSimilares cfg (COLOR_TOLERANCE cfg) s = Some (s1, n)" and n: "1 \<le> n"
      and body: "main_loop_body cfg s =
             Some (s1\<lparr>attempts := attempts s + 1,
                      score := max 0 (score s + n - (attempts s + 1)),
                      gameOver := \<not> anyActiveCell cfg (grid s1),
                      iSelected := - 1\<rparr>)"
      by blast
    show ?thesis
      using e n body
      by (intro exI [of _ s1] exI [of _ n]
            exI [of _ "s1\<lparr>attempts := attempts s + 1,
                      score := max 0 (score s + n - (attempts s + 1)),
                      gameOver := \<not> anyActiveCell cfg (grid s1),
                      iSelected := - 1\<rparr>"]) simp
  qed
  from att sc res show ?thesis by blast
qed

theorem score_formula_witness:
  "run scenario_config [click 50 50, Frame, click 50 150]
     (resetGame scenario_config scenario_rnd (init_game scenario_config)) =
     Some \<lparr>grid = scenario_grid True True False False, attempts = 1, score = 1, gameOver = False, iSelected = 2\<rparr> \<and>
   successes scenario_config 0 [click 50 50, Frame, click 50 150]
     (resetGame scenario_config scenario_rnd (init_game scenario_config)) = 1 \<and>
   (\<exists>s'. step scenario_config Frame
      \<lparr>grid = scenario_grid True True False False, attempts = 1, score = 1, gameOver = False, iSelected = 2\<rparr> = Some s' \<and>
      attempts s' = 2 \<and> score s' = 0)"
proof -
  let ?s = "\<lparr>grid = scenario_grid True True False False, attempts = 1, score = 1, gameOver = False, iSelected = 2\<rparr>"
  have rn: "run scenario_config [click 50 50, Frame, click 50 150]
     (resetGame scenario_config scenario_rnd (init_game scenario_config)) = Some ?s"
    using scenario_run(3) by (simp add: scenario_start_def)
  note f = score_formula [OF rn]
  have su: "successes scenario_config 0 [click 50 50, Frame, click 50 150]
     (resetGame scenario_config scenario_rnd (init_game scenario_config)) = 1"
    using f by simp
  have c: "0 \<le> iSelected ?s \<and> \<not> gameOver ?s" by simp
  from f c obtain s1 r s'
    where e: "eliminarSimilares scenario_config (COLOR_TOLERANCE scenario_config) ?s = Some (s1, r)"
      and st: "step scenario_config Frame ?s = Some s'"
      and a: "attempts s' = attempts ?s + 1"
      and sc: "score s' = max 0 (score ?s + r - attempts s')"
    by blast
  from e have "r = 1" by (simp add: scenario_elim)
  then have "attempts s' = 2 \<and> score s' = 0" using a sc by simp
  with st have "\<exists>s'. step scenario_config Frame ?s = Some s' \<and> attempts s' = 2 \<and> score s' = 0"
    by blast
  with rn su show ?thesis by blast
qed

lemma mouse_button_callback_gameOver:
  assumes "gameOver s"
  shows "mouse_button_callback cfg button action cursor s = Some s"
  using assms by (simp add: mouse_button_callback_def)

text \<open>
  C5: \<open>gameOver\<close> becomes true exactly in an iteration of the main loop that resolves a
  selection and leaves every quad eliminated. Before that some quad is active, so it is the
  first such resolution. While \<open>gameOver\<close> holds, clicks and loop iterations leave the state
  as it is; only a restart clears it.
\<close>

theorem gameOver_trigger:
  assumes "reachable cfg s" "step cfg e s = Some s'"
  shows "(gameOver s' \<longleftrightarrow>
            \<not> is_reset e \<and>
            (gameOver s \<or>
             (e = Frame \<and> 0 \<le> iSelected s \<and> (\<forall>i < ROWS cfg. \<forall>j < COLS cfg. eliminated (grid s' ! i ! j))))) \<and>
         (gameOver s \<and> \<not> is_reset e \<longrightarrow> s' = s) \<and>
         (gameOver s \<longleftrightarrow>
            0 < ROWS cfg * COLS cfg \<and> (\<forall>i < ROWS cfg. \<forall>j < COLS cfg. eliminated (grid s ! i ! j))) \<and>
         (anyActiveCell cfg (grid s') \<longleftrightarrow> (\<exists>i < ROWS cfg. \<exists>j < COLS cfg. \<not> eliminated (grid s' ! i ! j)))"
proof -
  have inv: "game_inv cfg s" by (rule reachable_inv [OF assms(1)])
  have wf: "wf_grid cfg (grid s)" using inv by (simp add: game_inv_def)
  have c3: "gameOver s \<longleftrightarrow>
            0 < ROWS cfg * COLS cfg \<and> (\<forall>i < ROWS cfg. \<forall>j < COLS cfg. eliminated (grid s ! i ! j))"
    using inv by (auto simp: game_inv_def anyActiveCell_iff)
  have c4: "anyActiveCell cfg (grid s') \<longleftrightarrow> (\<exists>i < ROWS cfg. \<exists>j < COLS cfg. \<not> eliminated (grid s' ! i ! j))"
    by (rule anyActiveCell_iff)
  have c12: "(gameOver s' \<longleftrightarrow>
            \<not> is_reset e \<and>
            (gameOver s \<or>
             (e = Frame \<and> 0 \<le> iSelected s \<and> (\<forall>i < ROWS cfg. \<forall>j < COLS cfg. eliminated (grid s' ! i ! j))))) \<and>
         (gameOver s \<and> \<not> is_reset e \<longrightarrow> s' = s)"
  proof (cases e)
    case (MouseButton button action xpos ypos)
    then have cb: "mouse_button_callback cfg button action (xpos, ypos) s = Some s'"
      using assms(2) by simp
    have "gameOver s' = gameOver s"
      using mouse_button_callback_cases [OF cb] by auto
    moreover have "gameOver s \<longrightarrow> s' = s"
      using cb mouse_button_callback_gameOver [of s cfg button action "(xpos, ypos)"] by auto
    ultimately show ?thesis using MouseButton by simp
  next
    case (KeyEvent k action rnd)
    show ?thesis
    proof (cases "is_reset e")
      case True
      then have "s' = resetGame cfg rnd s" using assms(2) KeyEvent by (auto simp: key_callback_def)
      then have "\<not> gameOver s'" by (simp add: resetGame_closed [OF wf])
      then show ?thesis using True by simp
    next
      case False
      then have "s' = s" using assms(2) KeyEvent key_callback_no_reset [of k action rnd cfg s] by simp
      then show ?thesis using False KeyEvent by simp
    qed
  next
    case Frame
    show ?thesis
    proof (cases "0 \<le> iSelected s")
      case False
      then have "main_loop_body cfg s = Some s" by (simp add: main_loop_body_idle)
      then have "s' = s" using assms(2) Frame by simp
      then show ?thesis using False Frame by simp
    next
      case True
      then have go: "\<not> gameOver s" using inv by (auto simp: game_inv_def)
      from main_loop_body_resolve [OF inv True]
      obtain s1 n where body: "main_loop_body cfg s =
             Some (s1\<lparr>attempts := attempts s + 1,
                      score := max 0 (score s + n - (attempts s + 1)),
                      gameOver := \<not> anyActiveCell cfg (grid s1),
                      iSelected := - 1\<rparr>)"
        by blast
      have s': "s' = s1\<lparr>attempts := attempts s + 1,
                      score := max 0 (score s + n - (attempts s + 1)),
                      gameOver := \<not> anyActiveCell cfg (grid s1),
                      iSelected := - 1\<rparr>"
        using body assms(2) Frame by simp
      have "gameOver s' = (\<not> anyActiveCell cfg (grid s'))" unfolding s' by simp
      then have "gameOver s' \<longleftrightarrow> (\<forall>i < ROWS cfg. \<forall>j < COLS cfg. eliminated (grid s' ! i ! j))"
        by (simp add: anyActiveCell_iff)
      then show ?thesis using True go Frame by simp
    qed
  qed
  from c12 c3 c4 show ?thesis by blast
qed

lemma scenario_reachable: "reachable scenario_config scenario_start"
  unfolding scenario_start_def by (rule reachable.start)

theorem gameOver_trigger_witness:
  "reachable scenario_config
     \<lparr>grid = scenario_grid True True True False, attempts = 2, score = 0, gameOver = False, iSelected = 3\<rparr> \<and>
   step scenario_config Frame
     \<lparr>grid = scenario_grid True True True False, attempts = 2, score = 0, gameOver = False, iSelected = 3\<rparr> =
     Some \<lparr>grid = scenario_grid True True True True, attempts = 3, score = 0, gameOver = True, iSelected = - 1\<rparr> \<and>
   eliminated (scenario_grid True True True True ! 1 ! 1) \<and>
   \<not> anyActiveCell scenario_config (scenario_grid True True True True)"
proof -
  let ?s = "\<lparr>grid = scenario_grid True True True False, attempts = 2, score = 0, gameOver = False, iSelected = 3\<rparr>"
  let ?s' = "\<lparr>grid = scenario_grid True True True True, attempts = 3, score = 0, gameOver = True, iSelected = - 1\<rparr>"
  have r: "reachable scenario_config ?s"
    by (rule reachable_run [OF scenario_reachable scenario_run(5)])
  have st: "step scenario_config Frame ?s = Some ?s'" by (simp add: scenario_frame)
  from gameOver_trigger [OF r st]
  have all: "\<forall>i < ROWS scenario_config. \<forall>j < COLS scenario_config. eliminated (scenario_grid True True True True ! i ! j)"
    and none: "\<not> anyActiveCell scenario_config (scenario_grid True True True True)"
    by simp_all
  have "eliminated (scenario_grid True True True True ! 1 ! 1)"
    using all [rule_format, of 1 1] by (simp add: scenario_config_def)
  with r st none show ?thesis by blast
qed

text \<open>
  C9: the scenario. In a matrix of two rows and two columns of quads of 100 by 100 pixels
  with the colours (1,0,0), (1,0,0), (0,0,1), (0,1,0) and tolerance 0.2, a click at (50, 50)
  removes two quads (attempts 1, score 1), a click at (50, 150) removes one (attempts 2,
  score 0), and a click at (150, 150) on the last quad removes it and ends the game.
\<close>

theorem game_scenario:
  "scenario_config = \<lparr>ROWS = 2, COLS = 2, QUAD_W = 100, QUAD_H = 100, COLOR_TOLERANCE = 0.2\<rparr> \<and>
   map (map color) (grid scenario_start) = [[Vec3 1 0 0, Vec3 1 0 0], [Vec3 0 0 1, Vec3 0 1 0]] \<and>
   map (map eliminated) (grid scenario_start) = [[False, False], [False, False]] \<and>
   attempts scenario_start = 0 \<and> score scenario_start = 0 \<and> \<not> gameOver scenario_start \<and>
   run scenario_config [click 50 50] scenario_start =
     Some \<lparr>grid = scenario_grid False False False False, attempts = 0, score = 0, gameOver = False, iSelected = 0\<rparr> \<and>
   map_option snd (eliminarSimilares scenario_config (COLOR_TOLERANCE scenario_config)
     \<lparr>grid = scenario_grid False False False False, attempts = 0, score = 0, gameOver = False, iSelected = 0\<rparr>) = Some 2 \<and>
   run scenario_config [click 50 50, Frame] scenario_start =
     Some \<lparr>grid = scenario_grid True True False False, attempts = 1, score = 1, gameOver = False, iSelected = - 1\<rparr> \<and>
   run scenario_config [click 50 50, Frame, click 50 150] scenario_start =
     Some \<lparr>grid = scenario_grid True True False False, attempts = 1, score = 1, gameOver = False, iSelected = 2\<rparr> \<and>
   map_option snd (eliminarSimilares scenario_config (COLOR_TOLERANCE scenario_config)
     \<lparr>grid = scenario_grid True True False False, attempts = 1, score = 1, gameOver = False, iSelected = 2\<rparr>) = Some 1 \<and>
   run scenario_config [click 50 50, Frame, click 50 150, Frame] scenario_start =
     Some \<lparr>grid = scenario_grid True True True False, attempts = 2, score = 0, gameOver = False, iSelected = - 1\<rparr> \<and>
   run scenario_config [click 50 50, Frame, click 50 150, Frame, click 150 150] scenario_start =
     Some \<lparr>grid = scenario_grid True True True False, attempts = 2, score = 0, gameOver = False, iSelected = 3\<rparr> \<and>
   map_option snd (eliminarSimilares scenario_config (COLOR_TOLERANCE scenario_config)
     \<lparr>grid = scenario_grid True True True False, attempts = 2, score = 0, gameOver = False, iSelected = 3\<rparr>) = Some 1 \<and>
   run scenario_config [click 50 50, Frame, click 50 150, Frame, click 150 150, Frame] scenario_start =
     Some \<lparr>grid = scenario_grid True True True True, attempts = 3, score = 0, gameOver = True, iSelected = - 1\<rparr>"
proof -
  have cfg: "scenario_config = \<lparr>ROWS = 2, COLS = 2, QUAD_W = 100, QUAD_H = 100, COLOR_TOLERANCE = 0.2\<rparr>"
    by (rule scenario_config_def)
  have start: "map (map color) (grid scenario_start) = [[Vec3 1 0 0, Vec3 1 0 0], [Vec3 0 0 1, Vec3 0 1 0]]"
    "map (map eliminated) (grid scenario_start) = [[False, False], [False, False]]"
    "attempts scenario_start = 0" "score scenario_start = 0" "\<not> gameOver scenario_start"
    by (simp_all add: scenario_start_grid scenario_grid_def)
  have removed: "map_option snd (eliminarSimilares scenario_config (COLOR_TOLERANCE scenario_config)
     \<lparr>grid = scenario_grid False False False False, attempts = 0, score = 0, gameOver = False, iSelected = 0\<rparr>) = Some 2"
    "map_option snd (eliminarSimilares scenario_config (COLOR_TOLERANCE scenario_config)
     \<lparr>grid = scenario_grid True True False False, attempts = 1, score = 1, gameOver = False, iSelected = 2\<rparr>) = Some 1"
    "map_option snd (eliminarSimilares scenario_config (COLOR_TOLERANCE scenario_config)
     \<lparr>grid = scenario_grid True True True False, attempts = 2, score = 0, gameOver = False, iSelected = 3\<rparr>) = Some 1"
    by (simp_all add: scenario_elim)
  from cfg start removed scenario_run show ?thesis by blast
qed

end
